theory Spec2Isabelle
  imports Complex_Main "HOL-Library.Stream"
begin

unbundle bit_operations_syntax

section \<open>Constants of crossy.py\<close>

definition TILE :: int where "TILE = 48"
definition COLS :: int where "COLS = 9"
definition ROWS_VISIBLE :: int where "ROWS_VISIBLE = 12"
definition WIDTH :: int where "WIDTH = COLS * TILE"
definition HEIGHT :: int where "HEIGHT = ROWS_VISIBLE * TILE"

definition SAFE_START_ROWS :: int where "SAFE_START_ROWS = 6"

definition ROAD_EVERY_APPROX :: int where "ROAD_EVERY_APPROX = 5"
definition ROAD_JITTER :: int where "ROAD_JITTER = 2"
definition ROAD_SEGMENT_MIN :: int where "ROAD_SEGMENT_MIN = 1"
definition ROAD_SEGMENT_MAX :: int where "ROAD_SEGMENT_MAX = 3"

definition CAR_SPEED_MIN :: real where "CAR_SPEED_MIN = 60"
definition CAR_SPEED_MAX :: real where "CAR_SPEED_MAX = 140"
definition CAR_GAP_MIN_TILES :: real where "CAR_GAP_MIN_TILES = 12 / 10"
definition CAR_GAP_MAX_TILES :: real where "CAR_GAP_MAX_TILES = 3"
definition CAR_LEN_MIN :: int where "CAR_LEN_MIN = 1"
definition CAR_LEN_MAX :: int where "CAR_LEN_MAX = 2"

text \<open>
  \<open>TREE_CHANCE = 0.18\<close> and \<open>PATH_WIGGLE_CHANCE = 0.6\<close> are only ever compared with a
  result of \<open>random()\<close>, and a comparison of two doubles is exact. They are therefore given
  the exact value of the double the literal denotes.
\<close>

definition TREE_CHANCE :: real where
  "TREE_CHANCE = 3242591731706757 / 2 ^ 54"

definition PATH_WIGGLE_CHANCE :: real where
  "PATH_WIGGLE_CHANCE = 5404319552844595 / 2 ^ 53"

lemmas constants =
  TILE_def COLS_def ROWS_VISIBLE_def WIDTH_def HEIGHT_def SAFE_START_ROWS_def
  ROAD_EVERY_APPROX_def ROAD_JITTER_def ROAD_SEGMENT_MIN_def ROAD_SEGMENT_MAX_def
  CAR_SPEED_MIN_def CAR_SPEED_MAX_def CAR_GAP_MIN_TILES_def CAR_GAP_MAX_TILES_def
  CAR_LEN_MIN_def CAR_LEN_MAX_def

section \<open>The generator \<open>random.Random\<close>\<close>

text \<open>
  The Mersenne Twister of the Python library is not part of the repository. A generator is
  modelled by the infinite sequence of its draws: every call of one of the two primitives of
  the library, \<open>_randbelow(n)\<close> and \<open>random()\<close>, takes the next draw and reduces it into the
  range of that primitive (\<open>random()\<close> is a 53-bit numerator over \<open>2 ^ 53\<close>). Seeding,
  \<open>random.Random(seed)\<close>, is a parameter \<open>sd\<close> of every function that creates a generator,
  and every theorem holds for all seeding functions. The library methods used by the game
  (\<open>randint\<close>, \<open>choice\<close>, \<open>uniform\<close>, \<open>shuffle\<close>) are written over the primitives as in
  the library. Floating-point arithmetic is idealised by the reals.
\<close>

type_synonym pyrandom = "nat stream"

definition randbelow :: "pyrandom \<Rightarrow> nat \<Rightarrow> nat \<times> pyrandom" where
  "randbelow g n = (shd g mod n, stl g)"

definition random :: "pyrandom \<Rightarrow> real \<times> pyrandom" where
  "random g = (real (shd g mod 2 ^ 53) / 2 ^ 53, stl g)"

text \<open>\<open>randint(a, b)\<close> is \<open>a + _randbelow(b - a + 1)\<close>; the game calls it with \<open>a \<le> b\<close> only.\<close>

definition randint :: "pyrandom \<Rightarrow> int \<Rightarrow> int \<Rightarrow> int \<times> pyrandom" where
  "randint g a b = (let (k, g') = randbelow g (nat (b - a + 1)) in (a + int k, g'))"

text \<open>\<open>choice(seq)\<close> is \<open>seq[_randbelow(len(seq))]\<close>; the game calls it on literals only.\<close>

definition choice :: "pyrandom \<Rightarrow> 'a list \<Rightarrow> 'a \<times> pyrandom" where
  "choice g xs = (let (k, g') = randbelow g (length xs) in (xs ! k, g'))"

definition uniform :: "pyrandom \<Rightarrow> real \<Rightarrow> real \<Rightarrow> real \<times> pyrandom" where
  "uniform g a b = (let (u, g') = random g in (a + (b - a) * u, g'))"

text \<open>
  \<open>shuffle(x)\<close>: \<open>for i in reversed(range(1, len(x))): j = _randbelow(i + 1); swap x[i], x[j]\<close>.
  \<open>shuffle_from i\<close> runs the loop from index \<open>i\<close> down to 1.
\<close>

primrec shuffle_from :: "nat \<Rightarrow> 'a list \<Rightarrow> pyrandom \<Rightarrow> 'a list \<times> pyrandom" where
  "shuffle_from 0 xs g = (xs, g)"
| "shuffle_from (Suc n) xs g =
     (let (j, g') = randbelow g (Suc n + 1)
      in shuffle_from n (xs[Suc n := xs ! j, j := xs ! Suc n]) g')"

definition shuffle :: "pyrandom \<Rightarrow> 'a list \<Rightarrow> 'a list \<times> pyrandom" where
  "shuffle g xs = shuffle_from (length xs - 1) xs g"

section \<open>Helpers\<close>

definition clamp :: "'a::linorder \<Rightarrow> 'a \<Rightarrow> 'a \<Rightarrow> 'a" where
  "clamp v lo hi = (if v < lo then lo else if v > hi then hi else v)"

definition lerp :: "real \<Rightarrow> real \<Rightarrow> real \<Rightarrow> real" where
  "lerp a b t = a + (b - a) * t"

definition world_row_to_screen_y :: "real \<Rightarrow> real \<Rightarrow> real" where
  "world_row_to_screen_y r camera_y = real_of_int HEIGHT - ((r + 1) * real_of_int TILE) + camera_y"

section \<open>Cars\<close>

text \<open>Fields \<open>x\<close> and \<open>w\<close> of the class are \<open>car_x\<close> and \<open>car_w\<close> here.\<close>

record Car =
  car_x :: real
  car_w :: int
  speed :: real
  dir :: int

definition Car_init :: "real \<Rightarrow> int \<Rightarrow> real \<Rightarrow> int \<Rightarrow> Car" where
  "Car_init x_px width_tiles speed_px_s direction =
     \<lparr>car_x = x_px, car_w = width_tiles * TILE, speed = speed_px_s, dir = direction\<rparr>"

definition Car_update :: "Car \<Rightarrow> real \<Rightarrow> Car" where
  "Car_update c dt =
     (let x1 = car_x c + real_of_int (dir c) * speed c * dt;
          buffer_px = 2 * TILE
      in if dir c = 1 \<and> x1 > real_of_int (WIDTH + buffer_px)
         then c\<lparr>car_x := real_of_int (- car_w c - buffer_px)\<rparr>
         else if dir c = - 1 \<and> x1 < real_of_int (- car_w c - buffer_px)
         then c\<lparr>car_x := real_of_int (WIDTH + buffer_px)\<rparr>
         else c\<lparr>car_x := x1\<rparr>)"

section \<open>Lanes\<close>

datatype terrain = Grass | Road

datatype error = IndexError

text \<open>Field \<open>cols\<close> of the class is \<open>lcols\<close> here (the world has a field \<open>cols\<close> too).\<close>

record Lane =
  row :: int
  kind :: terrain
  lcols :: int
  blocked :: "bool list"
  cars :: "Car list"

text \<open>
  The loop \<open>for c in range(cols)\<close> of a grass lane, over the list of the columns: the
  guaranteed column draws nothing, every other column draws \<open>random()\<close>.
\<close>

fun fill_blocked :: "int \<Rightarrow> int list \<Rightarrow> pyrandom \<Rightarrow> bool list" where
  "fill_blocked guaranteed_open [] g = []"
| "fill_blocked guaranteed_open (c # cs) g =
     (if c = guaranteed_open then False # fill_blocked guaranteed_open cs g
      else (let (u, g') = random g
            in (u < TREE_CHANCE) # fill_blocked guaranteed_open cs g'))"

text \<open>The loop \<open>while x < WIDTH + 3 * TILE\<close> of a road lane.\<close>

function place_cars :: "real \<Rightarrow> real \<Rightarrow> int \<Rightarrow> pyrandom \<Rightarrow> Car list" where
  "place_cars x0 sp direction g =
     (if x0 < real_of_int (WIDTH + 3 * TILE)
      then (let car_len = fst (randint g CAR_LEN_MIN CAR_LEN_MAX);
                g1 = snd (randint g CAR_LEN_MIN CAR_LEN_MAX);
                gap_tiles = fst (uniform g1 CAR_GAP_MIN_TILES CAR_GAP_MAX_TILES);
                g2 = snd (uniform g1 CAR_GAP_MIN_TILES CAR_GAP_MAX_TILES)
            in Car_init x0 car_len sp direction
               # place_cars (x0 + real_of_int (car_len * TILE) + gap_tiles * real_of_int TILE)
                   sp direction g2)
      else [])"
  by pat_completeness auto

lemma random_range: "0 \<le> fst (random g) \<and> fst (random g) < 1"
  by (simp add: random_def)

lemma uniform_range:
  assumes "a \<le> b"
  shows "a \<le> fst (uniform g a b) \<and> fst (uniform g a b) \<le> b"
proof -
  let ?u = "fst (random g)"
  have u: "0 \<le> ?u" "?u \<le> 1" using random_range [of g] by auto
  have eq: "fst (uniform g a b) = a + (b - a) * ?u"
    by (simp add: uniform_def split: prod.splits)
  have "0 \<le> (b - a) * ?u" using assms u by simp
  moreover have "(b - a) * ?u \<le> (b - a) * 1"
    using assms u by (intro mult_left_mono) auto
  ultimately show ?thesis unfolding eq by simp
qed

lemma randint_range:
  assumes "a \<le> b"
  shows "a \<le> fst (randint g a b) \<and> fst (randint g a b) \<le> b"
proof -
  have pos: "0 < nat (b - a + 1)" using assms by simp
  have "shd g mod nat (b - a + 1) < nat (b - a + 1)"
    using pos by (rule mod_less_divisor)
  then show ?thesis
    by (auto simp: randint_def randbelow_def)
qed

termination place_cars
proof (relation "measure (\<lambda>(x0, sp, direction, g). nat \<lceil>real_of_int (WIDTH + 3 * TILE) - x0\<rceil>)",
    goal_cases)
  case 1
  show ?case by simp
next
  case (2 x0 sp direction g car_len g1 gap_tiles g2)
  have len: "1 \<le> car_len"
    using randint_range [of CAR_LEN_MIN CAR_LEN_MAX g] 2 by (simp add: constants)
  have gap: "0 \<le> gap_tiles"
    using uniform_range [of CAR_GAP_MIN_TILES CAR_GAP_MAX_TILES g1] 2 by (simp add: constants)
  have "1 \<le> real_of_int (car_len * TILE) + gap_tiles * real_of_int TILE"
    using len gap by (simp add: TILE_def)
  moreover have "x0 < real_of_int (WIDTH + 3 * TILE)" using 2 by simp
  ultimately show ?case by (simp add: constants) linarith
qed

declare place_cars.simps [simp del]

text \<open>
  \<open>Lane.__init__\<close>. \<open>[False] * cols\<close> is the empty list for \<open>cols \<le> 0\<close>, and
  \<open>passable_cols[0]\<close> raises \<open>IndexError\<close> on an empty list. A road lane leaves
  \<open>blocked\<close> as initialised.
\<close>

definition Lane_init ::
  "(int \<Rightarrow> pyrandom) \<Rightarrow> int \<Rightarrow> int \<Rightarrow> terrain \<Rightarrow> int \<Rightarrow> int option \<Rightarrow> error + Lane" where
  "Lane_init sd row_index cols0 kind0 seed forced_open_col =
     (let g = sd seed;
          blocked0 = replicate (nat cols0) False
      in case kind0 of
           Grass \<Rightarrow>
             (let (passable_cols, g1) = shuffle g [0..cols0 - 1]
              in case passable_cols of
                   [] \<Rightarrow> Inl IndexError
                 | guaranteed_open # _ \<Rightarrow>
                     (let blocked1 = fill_blocked guaranteed_open [0..cols0 - 1] g1;
                          blocked2 =
                            (case forced_open_col of
                               None \<Rightarrow> blocked1
                             | Some f \<Rightarrow>
                                 if 0 \<le> f \<and> f < cols0 then blocked1[nat f := False]
                                 else blocked1)
                      in Inr \<lparr>row = row_index, kind = Grass, lcols = cols0,
                               blocked = blocked2, cars = []\<rparr>))
         | Road \<Rightarrow>
             (let (direction, g1) = choice g [- 1, 1];
                  difficulty = clamp (real_of_int row_index / 60) 0 1;
                  base_speed = lerp CAR_SPEED_MIN CAR_SPEED_MAX difficulty;
                  (m, g2) = uniform g1 (85 / 100) (115 / 100);
                  sp = base_speed * m;
                  (x0, g3) = uniform g2 (real_of_int (- 2 * TILE)) (real_of_int (2 * TILE))
              in Inr \<lparr>row = row_index, kind = Road, lcols = cols0,
                       blocked = blocked0, cars = place_cars x0 sp direction g3\<rparr>))"

definition is_blocked :: "Lane \<Rightarrow> int \<Rightarrow> bool" where
  "is_blocked l col =
     (if kind l \<noteq> Grass then False
      else if 0 \<le> col \<and> col < int (length (blocked l)) then blocked l ! nat col
      else True)"

definition Lane_update :: "Lane \<Rightarrow> real \<Rightarrow> Lane" where
  "Lane_update l dt =
     (if kind l = Road then l\<lparr>cars := map (\<lambda>car. Car_update car dt) (cars l)\<rparr> else l)"

section \<open>The world generator\<close>

record World =
  cols :: int
  lanes :: "int \<rightharpoonup> Lane"
  generated_max :: int
  next_road_start :: int
  road_remaining :: int
  rng :: pyrandom
  path_col :: int

text \<open>The two seeds \<open>(row * 1000003) ^ 0x123456\<close> and \<open>(row * 1000003) ^ 0xABCDEF\<close>.\<close>

definition grass_seed :: "int \<Rightarrow> int" where
  "grass_seed r = (r * 1000003) XOR 1193046"

definition road_seed :: "int \<Rightarrow> int" where
  "road_seed r = (r * 1000003) XOR 11259375"

definition schedule_next_road_start :: "World \<Rightarrow> int \<Rightarrow> World" where
  "schedule_next_road_start w current_row =
     (let (j, g) = randint (rng w) (- ROAD_JITTER) ROAD_JITTER;
          delta = ROAD_EVERY_APPROX + j;
          delta = max 2 delta;
          nrs = current_row + delta
      in w\<lparr>rng := g,
            next_road_start := (if nrs < SAFE_START_ROWS then SAFE_START_ROWS else nrs)\<rparr>)"

definition World_init :: "(int \<Rightarrow> pyrandom) \<Rightarrow> int \<Rightarrow> World" where
  "World_init sd c =
     schedule_next_road_start
       \<lparr>cols = c, lanes = Map.empty, generated_max = - 999999, next_road_start = 999999,
        road_remaining = 0, rng = sd 1337, path_col = c div 2\<rparr>
       (SAFE_START_ROWS - 1)"

definition maybe_wiggle_path :: "World \<Rightarrow> World" where
  "maybe_wiggle_path w =
     (let (u, g1) = random (rng w)
      in if u < PATH_WIGGLE_CHANCE
         then (let (step, g2) = choice g1 [- 1, 0, 1]
               in w\<lparr>rng := g2, path_col := clamp (path_col w + step) 0 (cols w - 1)\<rparr>)
         else w\<lparr>rng := g1\<rparr>)"

text \<open>
  The scheduler part of \<open>_make_lane\<close> for a row at or above the safe start: the kind of
  the row and the world after the scheduler has moved.
\<close>

definition schedule_row :: "World \<Rightarrow> int \<Rightarrow> terrain \<times> World" where
  "schedule_row w r =
     (if road_remaining w > 0 then (Road, w\<lparr>road_remaining := road_remaining w - 1\<rparr>)
      else if r \<ge> next_road_start w
      then (let (n, g) = randint (rng w) ROAD_SEGMENT_MIN ROAD_SEGMENT_MAX;
                w1 = w\<lparr>rng := g, road_remaining := n\<rparr>;
                w2 = w1\<lparr>road_remaining := road_remaining w1 - 1\<rparr>
            in (Road, schedule_next_road_start w2 r))
      else (Grass, w))"

definition make_lane :: "(int \<Rightarrow> pyrandom) \<Rightarrow> World \<Rightarrow> int \<Rightarrow> error + (Lane \<times> World)" where
  "make_lane sd w r =
     (if r < SAFE_START_ROWS
      then (case Lane_init sd r (cols w) Grass (grass_seed r) (Some (path_col w)) of
              Inl e \<Rightarrow> Inl e
            | Inr l \<Rightarrow> Inr (l, w))
      else (let (kind0, w1) = schedule_row w r
            in if kind0 = Grass
               then (let w2 = maybe_wiggle_path w1
                     in case Lane_init sd r (cols w2) Grass (grass_seed r) (Some (path_col w2)) of
                          Inl e \<Rightarrow> Inl e
                        | Inr l \<Rightarrow> Inr (l, w2))
               else (case Lane_init sd r (cols w1) Road (road_seed r) None of
                       Inl e \<Rightarrow> Inl e
                     | Inr l \<Rightarrow> Inr (l, w1))))"

text \<open>
  The first loop of \<open>ensure_range\<close>, \<open>for r in range(start, row_max + 1)\<close>, over the list of
  its rows.
\<close>

fun generate_rows :: "(int \<Rightarrow> pyrandom) \<Rightarrow> int list \<Rightarrow> World \<Rightarrow> error + World" where
  "generate_rows sd [] w = Inr w"
| "generate_rows sd (r # rs) w =
     (case (if lanes w r = None
            then (case make_lane sd w r of
                    Inl e \<Rightarrow> Inl e
                  | Inr (l, w') \<Rightarrow> Inr (w'\<lparr>lanes := (lanes w')(r \<mapsto> l)\<rparr>))
            else Inr w) of
        Inl e \<Rightarrow> Inl e
      | Inr w1 \<Rightarrow> generate_rows sd rs (w1\<lparr>generated_max := max (generated_max w1) r\<rparr>))"

text \<open>The backfill loop, \<open>for r in range(row_min, min(row_max, generated_max) + 1)\<close>.\<close>

fun backfill_rows :: "(int \<Rightarrow> pyrandom) \<Rightarrow> int list \<Rightarrow> World \<Rightarrow> error + World" where
  "backfill_rows sd [] w = Inr w"
| "backfill_rows sd (r # rs) w =
     (if lanes w r = None
      then (case Lane_init sd r (cols w) Grass (grass_seed r) (Some (path_col w)) of
              Inl e \<Rightarrow> Inl e
            | Inr l \<Rightarrow> backfill_rows sd rs (w\<lparr>lanes := (lanes w)(r \<mapsto> l)\<rparr>))
      else backfill_rows sd rs w)"

definition reset_if_far :: "(int \<Rightarrow> pyrandom) \<Rightarrow> World \<Rightarrow> int \<Rightarrow> World" where
  "reset_if_far sd w row_min =
     (if generated_max w < row_min - 50
      then schedule_next_road_start
             (w\<lparr>generated_max := row_min - 1, next_road_start := 999999, road_remaining := 0,
                rng := sd 1337, path_col := cols w div 2\<rparr>)
             (SAFE_START_ROWS - 1)
      else w)"

definition evict :: "World \<Rightarrow> int \<Rightarrow> int \<Rightarrow> World" where
  "evict w keep_min keep_max =
     w\<lparr>lanes := (\<lambda>r. if r < keep_min \<or> r > keep_max then None else lanes w r)\<rparr>"

definition ensure_range :: "(int \<Rightarrow> pyrandom) \<Rightarrow> World \<Rightarrow> int \<Rightarrow> int \<Rightarrow> error + World" where
  "ensure_range sd w row_min row_max =
     (let w0 = reset_if_far sd w row_min;
          start = max (generated_max w0 + 1) row_min
      in case generate_rows sd [start..row_max] w0 of
           Inl e \<Rightarrow> Inl e
         | Inr w1 \<Rightarrow>
             (case backfill_rows sd [row_min..min row_max (generated_max w1)] w1 of
                Inl e \<Rightarrow> Inl e
              | Inr w2 \<Rightarrow> Inr (evict w2 (row_min - 2) (row_max + 2))))"

definition get_lane :: "World \<Rightarrow> int \<Rightarrow> Lane option" where
  "get_lane w r = lanes w r"

text \<open>\<open>World.update\<close>: lanes off the screen are skipped.\<close>

definition World_update :: "World \<Rightarrow> real \<Rightarrow> real \<Rightarrow> World" where
  "World_update w dt camera_y =
     w\<lparr>lanes := (\<lambda>r. case lanes w r of
                       None \<Rightarrow> None
                     | Some lane \<Rightarrow>
                         (let y = world_row_to_screen_y (real_of_int (row lane)) camera_y
                          in if y > real_of_int (HEIGHT + TILE) \<or> y < real_of_int (- TILE)
                             then Some lane
                             else Some (Lane_update lane dt)))\<rparr>"

text \<open>
  The states of a world: created by the constructor, then any sequence of calls of
  \<open>ensure_range\<close> that return and of \<open>update\<close>.
\<close>

inductive reachable :: "(int \<Rightarrow> pyrandom) \<Rightarrow> World \<Rightarrow> bool" for sd where
  reach_init: "reachable sd (World_init sd c)"
| reach_ensure: "reachable sd w \<Longrightarrow> ensure_range sd w row_min row_max = Inr w' \<Longrightarrow> reachable sd w'"
| reach_update: "reachable sd w \<Longrightarrow> reachable sd (World_update w dt camera_y)"

text \<open>
  A seeding function for concrete inputs, made of draws recorded from CPython's
  \<open>random.Random\<close>. On the seed of grass row 1, \<open>1930773\<close>, it gives the first sixteen draws
  for a lane of nine columns: the eight indices \<open>shuffle\<close> draws, then the eight numerators of
  \<open>random()\<close>. On the seed of the world, \<open>1337\<close>, it gives the first three draws when they are
  taken by \<open>_randbelow(5)\<close>, \<open>_randbelow(3)\<close> and \<open>_randbelow(5)\<close>: the calls of a new world
  whose first generated row starts a hazard run. Every other draw is 0.
\<close>

definition sample_seed :: "int \<Rightarrow> pyrandom" where
  "sample_seed s =
     (if s = 1930773
      then [2, 7, 3, 0, 0, 3, 0, 1,
            4405655995599643, 520944838793683, 4844883362163712, 7761806212291122,
            959226697287501, 7798928165728972, 7227856757546639, 8863633461707706] @- sconst 0
      else if s = 1337 then [4, 2, 2] @- sconst 0
      else sconst 0)"

text \<open>
  The scheduler of the specification, in its words: the kind of the current row, the new
  \<open>hazard_remaining\<close> and the new \<open>next_hazard_start\<close>, from the drawn run length and jitter.
\<close>

definition spec_scheduler_step ::
  "int \<Rightarrow> int \<Rightarrow> int \<Rightarrow> int \<Rightarrow> int \<Rightarrow> terrain \<times> int \<times> int" where
  "spec_scheduler_step current_row hazard_remaining next_hazard_start run_length jitter =
     (if hazard_remaining > 0 then (Road, hazard_remaining - 1, next_hazard_start)
      else if current_row \<ge> next_hazard_start
      then (Road, run_length - 1,
            max SAFE_START_ROWS (current_row + max 2 (ROAD_EVERY_APPROX + jitter)))
      else (Grass, hazard_remaining, next_hazard_start))"

text \<open>The test of \<open>World.update\<close> that a lane is not skipped.\<close>

definition on_screen :: "Lane \<Rightarrow> real \<Rightarrow> bool" where
  "on_screen l camera_y \<longleftrightarrow>
     \<not> (world_row_to_screen_y (real_of_int (row l)) camera_y > real_of_int (HEIGHT + TILE) \<or>
        world_row_to_screen_y (real_of_int (row l)) camera_y < real_of_int (- TILE))"

text \<open>Two cars for concrete inputs.\<close>

definition right_car :: Car where
  "right_car = \<lparr>car_x = 500, car_w = 48, speed = 60, dir = 1\<rparr>"

definition left_car :: Car where
  "left_car = \<lparr>car_x = - 100, car_w = 48, speed = 60, dir = - 1\<rparr>"

text \<open>
  The advance of the specification, in its words: the position of a vehicle after one tick,
  before any wrap relocation.
\<close>

definition advanced_position :: "Car \<Rightarrow> real \<Rightarrow> real" where
  "advanced_position c dt = car_x c + real_of_int (dir c) * speed c * dt"

text \<open>The invariants of the reachable worlds.\<close>

definition path_ok :: "World \<Rightarrow> bool" where
  "path_ok w \<longleftrightarrow> (1 \<le> cols w \<longrightarrow> 0 \<le> path_col w \<and> path_col w < cols w)"

definition lanes_ok :: "World \<Rightarrow> bool" where
  "lanes_ok w \<longleftrightarrow>
     (\<forall>r l. lanes w r = Some l \<longrightarrow> row l = r \<and> (r < SAFE_START_ROWS \<longrightarrow> kind l = Grass))"

text \<open>No lane lies above the last generation point.\<close>

definition rows_le_gm :: "World \<Rightarrow> bool" where
  "rows_le_gm w \<longleftrightarrow> (\<forall>r. lanes w r \<noteq> None \<longrightarrow> r \<le> generated_max w)"

section \<open>Lanes: results and errors of the constructor\<close>

lemma shuffle_from_length: "length (fst (shuffle_from n xs g)) = length xs"
  by (induction n arbitrary: xs g) (simp_all add: split_def Let_def)

lemma shuffle_length: "length (fst (shuffle g xs)) = length xs"
  by (simp add: shuffle_def shuffle_from_length)

lemma fill_blocked_length: "length (fill_blocked go cs g) = length cs"
  by (induction cs arbitrary: g) (simp_all add: split_def Let_def)

lemma shuffle_Nil: "shuffle g [] = ([], g)"
  by (simp add: shuffle_def)

lemma Lane_init_Grass_error:
  assumes "c \<le> 0"
  shows "Lane_init sd r c Grass s f = Inl IndexError"
  using assms by (simp add: Lane_init_def shuffle_Nil)

lemma Lane_init_Grass_total:
  assumes "1 \<le> c"
  shows "\<exists>l. Lane_init sd r c Grass s f = Inr l"
proof -
  have "length (fst (shuffle (sd s) [0..c - 1])) = nat c"
    using assms by (simp add: shuffle_length)
  then obtain p ps where "fst (shuffle (sd s) [0..c - 1]) = p # ps"
    using assms by (cases "fst (shuffle (sd s) [0..c - 1])") auto
  then show ?thesis
    by (simp add: Lane_init_def split_def Let_def)
qed

lemma Lane_init_Road_total: "\<exists>l. Lane_init sd r c Road s f = Inr l"
  by (simp add: Lane_init_def split_def Let_def)

lemma Lane_init_fields:
  assumes "Lane_init sd r c k s f = Inr l"
  shows "row l = r \<and> kind l = k \<and> lcols l = c"
  using assms
  by (cases k) (auto simp: Lane_init_def split_def Let_def split: list.splits)

lemma Lane_init_Grass_cols:
  assumes "Lane_init sd r c Grass s f = Inr l"
  shows "1 \<le> c"
proof (rule ccontr)
  assume "\<not> 1 \<le> c"
  then have "c \<le> 0" by simp
  from Lane_init_Grass_error [OF this] assms show False by simp
qed

lemma Lane_init_Grass_forced:
  assumes "Lane_init sd r c Grass s f = Inr l"
  shows "\<exists>l0. Lane_init sd r c Grass s None = Inr l0 \<and> length (blocked l0) = nat c \<and>
           l = l0\<lparr>blocked := (case f of None \<Rightarrow> blocked l0
                                | Some k \<Rightarrow> if 0 \<le> k \<and> k < c then (blocked l0)[nat k := False]
                                            else blocked l0)\<rparr>"
  using assms
  by (auto simp: Lane_init_def split_def Let_def fill_blocked_length split: list.splits option.splits)

lemma Lane_init_Road_forced:
  "Lane_init sd r c Road s f = Lane_init sd r c Road s f'"
  by (simp add: Lane_init_def)

section \<open>The scheduler and \<open>_make_lane\<close>\<close>

lemma nrs_cols [simp]: "cols (schedule_next_road_start w r) = cols w"
  and nrs_lanes [simp]: "lanes (schedule_next_road_start w r) = lanes w"
  and nrs_path [simp]: "path_col (schedule_next_road_start w r) = path_col w"
  and nrs_gm [simp]: "generated_max (schedule_next_road_start w r) = generated_max w"
  and nrs_rem [simp]: "road_remaining (schedule_next_road_start w r) = road_remaining w"
  by (simp_all add: schedule_next_road_start_def split_def Let_def)

lemma wiggle_cols [simp]: "cols (maybe_wiggle_path w) = cols w"
  and wiggle_lanes [simp]: "lanes (maybe_wiggle_path w) = lanes w"
  and wiggle_gm [simp]: "generated_max (maybe_wiggle_path w) = generated_max w"
  and wiggle_rem [simp]: "road_remaining (maybe_wiggle_path w) = road_remaining w"
  and wiggle_nrs [simp]: "next_road_start (maybe_wiggle_path w) = next_road_start w"
  by (simp_all add: maybe_wiggle_path_def split_def Let_def)

lemma sched_cols [simp]: "cols (snd (schedule_row w r)) = cols w"
  and sched_lanes [simp]: "lanes (snd (schedule_row w r)) = lanes w"
  and sched_path [simp]: "path_col (snd (schedule_row w r)) = path_col w"
  and sched_gm [simp]: "generated_max (snd (schedule_row w r)) = generated_max w"
  by (simp_all add: schedule_row_def split_def Let_def)

lemma clamp_range:
  assumes "lo \<le> hi"
  shows "lo \<le> clamp v lo hi \<and> clamp v lo hi \<le> hi"
  using assms by (auto simp: clamp_def)

lemma wiggle_path_ok:
  assumes "path_ok w"
  shows "path_ok (maybe_wiggle_path w)"
proof -
  have "1 \<le> cols w \<Longrightarrow> 0 \<le> clamp v 0 (cols w - 1) \<and> clamp v 0 (cols w - 1) < cols w" for v
    using clamp_range [of 0 "cols w - 1" v] by auto
  then show ?thesis
    using assms by (auto simp: path_ok_def maybe_wiggle_path_def split_def Let_def)
qed

lemma make_lane_lanes:
  assumes "make_lane sd w r = Inr (l, w')"
  shows "lanes w' = lanes w"
  using assms
  by (auto simp: make_lane_def split_def Let_def split: if_splits sum.splits)

lemma make_lane_cols:
  assumes "make_lane sd w r = Inr (l, w')"
  shows "cols w' = cols w"
  using assms
  by (auto simp: make_lane_def split_def Let_def split: if_splits sum.splits)

lemma make_lane_gm:
  assumes "make_lane sd w r = Inr (l, w')"
  shows "generated_max w' = generated_max w"
  using assms
  by (auto simp: make_lane_def split_def Let_def split: if_splits sum.splits)

lemma make_lane_path_ok:
  assumes "make_lane sd w r = Inr (l, w')" and "path_ok w"
  shows "path_ok w'"
proof -
  have s: "path_ok (snd (schedule_row w r))"
    using assms(2) by (simp add: path_ok_def)
  show ?thesis
    using assms s wiggle_path_ok [OF s]
    by (auto simp: make_lane_def split_def Let_def split: if_splits sum.splits)
qed

lemma make_lane_fields:
  assumes "make_lane sd w r = Inr (l, w')"
  shows "row l = r \<and> lcols l = cols w"
  using assms
  by (auto simp: make_lane_def split_def Let_def split: if_splits sum.splits
      dest!: Lane_init_fields)

lemma make_lane_safe:
  assumes "make_lane sd w r = Inr (l, w')" and "r < SAFE_START_ROWS"
  shows "kind l = Grass \<and> w' = w"
  using assms
  by (auto simp: make_lane_def split: sum.splits dest!: Lane_init_fields)

lemma make_lane_total:
  assumes "1 \<le> cols w"
  shows "\<exists>l w'. make_lane sd w r = Inr (l, w')"
proof -
  have g: "\<exists>l. Lane_init sd r' (cols w) Grass s f = Inr l" for r' s f
    using assms by (rule Lane_init_Grass_total)
  have rd: "\<exists>l. Lane_init sd r' (cols w) Road s f = Inr l" for r' s f
    by (rule Lane_init_Road_total)
  show ?thesis
  proof (cases "r < SAFE_START_ROWS")
    case True
    then show ?thesis using g [of r "grass_seed r" "Some (path_col w)"]
      by (auto simp: make_lane_def)
  next
    case False
    show ?thesis
    proof (cases "fst (schedule_row w r) = Grass")
      case True
      then show ?thesis
        using False g [of r "grass_seed r" "Some (path_col (maybe_wiggle_path (snd (schedule_row w r))))"]
        by (auto simp: make_lane_def split_def Let_def)
    next
      case nG: False
      then show ?thesis
        using False rd [of r "road_seed r" None]
        by (auto simp: make_lane_def split_def Let_def)
    qed
  qed
qed

lemma make_lane_Grass_cols:
  assumes "make_lane sd w r = Inr (l, w')" and "kind l = Grass"
  shows "1 \<le> cols w"
  using assms
  by (auto simp: make_lane_def split_def Let_def split: if_splits sum.splits
      dest: Lane_init_Grass_cols Lane_init_fields)

lemma make_lane_Grass_hint:
  assumes "make_lane sd w r = Inr (l, w')" and "kind l = Grass"
  shows "Lane_init sd r (cols w) Grass (grass_seed r) (Some (path_col w')) = Inr l"
  using assms
  by (auto simp: make_lane_def split_def Let_def split: if_splits sum.splits
      dest: Lane_init_fields)

section \<open>The generation loop\<close>

lemma generate_rows_Cons:
  assumes "generate_rows sd (r # rs) w = Inr w'"
  obtains (present) "lanes w r \<noteq> None"
      "generate_rows sd rs (w\<lparr>generated_max := max (generated_max w) r\<rparr>) = Inr w'"
  | (missing) l w2 where "lanes w r = None" "make_lane sd w r = Inr (l, w2)"
      "generate_rows sd rs
         (w2\<lparr>lanes := (lanes w2)(r \<mapsto> l), generated_max := max (generated_max w2) r\<rparr>) = Inr w'"
  using assms by (auto split: if_splits sum.splits)

lemma generate_rows_cols:
  assumes "generate_rows sd rs w = Inr w'"
  shows "cols w' = cols w"
  using assms
proof (induction rs arbitrary: w)
  case Nil
  then show ?case by simp
next
  case (Cons r rs)
  from Cons.prems show ?case
  proof (cases rule: generate_rows_Cons)
    case present
    from Cons.IH [OF present(2)] show ?thesis by simp
  next
    case (missing l w2)
    from Cons.IH [OF missing(3)] make_lane_cols [OF missing(2)] show ?thesis by simp
  qed
qed

lemma generate_rows_path_ok:
  assumes "generate_rows sd rs w = Inr w'" and "path_ok w"
  shows "path_ok w'"
  using assms
proof (induction rs arbitrary: w)
  case Nil
  then show ?case by simp
next
  case (Cons r rs)
  from Cons.prems(1) show ?case
  proof (cases rule: generate_rows_Cons)
    case present
    have "path_ok (w\<lparr>generated_max := max (generated_max w) r\<rparr>)"
      using Cons.prems(2) by (simp add: path_ok_def)
    from Cons.IH [OF present(2) this] show ?thesis .
  next
    case (missing l w2)
    have "path_ok w2" using make_lane_path_ok [OF missing(2) Cons.prems(2)] .
    then have "path_ok (w2\<lparr>lanes := (lanes w2)(r \<mapsto> l),
        generated_max := max (generated_max w2) r\<rparr>)"
      by (simp add: path_ok_def)
    from Cons.IH [OF missing(3) this] show ?thesis .
  qed
qed

lemma generate_rows_keeps:
  assumes "generate_rows sd rs w = Inr w'" and "lanes w q = Some l0"
  shows "lanes w' q = Some l0"
  using assms
proof (induction rs arbitrary: w)
  case Nil
  then show ?case by simp
next
  case (Cons r rs)
  from Cons.prems(1) show ?case
  proof (cases rule: generate_rows_Cons)
    case present
    from Cons.IH [OF present(2)] Cons.prems(2) show ?thesis by simp
  next
    case (missing l w2)
    have "q \<noteq> r" using missing(1) Cons.prems(2) by auto
    then have "lanes (w2\<lparr>lanes := (lanes w2)(r \<mapsto> l),
        generated_max := max (generated_max w2) r\<rparr>) q = Some l0"
      using Cons.prems(2) make_lane_lanes [OF missing(2)] by simp
    from Cons.IH [OF missing(3) this] show ?thesis .
  qed
qed

lemma generate_rows_present:
  assumes "generate_rows sd rs w = Inr w'" and "q \<in> set rs"
  shows "lanes w' q \<noteq> None"
  using assms
proof (induction rs arbitrary: w)
  case Nil
  then show ?case by simp
next
  case (Cons r rs)
  from Cons.prems(1) show ?case
  proof (cases rule: generate_rows_Cons)
    case present
    show ?thesis
    proof (cases "q = r")
      case True
      then obtain l0 where "lanes (w\<lparr>generated_max := max (generated_max w) r\<rparr>) q = Some l0"
        using present(1) by auto
      from generate_rows_keeps [OF present(2) this] show ?thesis by simp
    next
      case False
      then have "q \<in> set rs" using Cons.prems(2) by simp
      from Cons.IH [OF present(2) this] show ?thesis .
    qed
  next
    case (missing l w2)
    let ?w = "w2\<lparr>lanes := (lanes w2)(r \<mapsto> l), generated_max := max (generated_max w2) r\<rparr>"
    show ?thesis
    proof (cases "q = r")
      case True
      then have "lanes ?w q = Some l" by simp
      from generate_rows_keeps [OF missing(3) this] show ?thesis by simp
    next
      case False
      then have "q \<in> set rs" using Cons.prems(2) by simp
      from Cons.IH [OF missing(3) this] show ?thesis .
    qed
  qed
qed

lemma generate_rows_new:
  assumes "generate_rows sd rs w = Inr w'" and "q \<notin> set rs"
  shows "lanes w' q = lanes w q"
  using assms
proof (induction rs arbitrary: w)
  case Nil
  then show ?case by simp
next
  case (Cons r rs)
  have q: "q \<noteq> r" "q \<notin> set rs" using Cons.prems(2) by auto
  from Cons.prems(1) show ?case
  proof (cases rule: generate_rows_Cons)
    case present
    from Cons.IH [OF present(2) q(2)] show ?thesis by simp
  next
    case (missing l w2)
    from Cons.IH [OF missing(3) q(2)] q(1) make_lane_lanes [OF missing(2)]
    show ?thesis by simp
  qed
qed

lemma generate_rows_total:
  assumes "1 \<le> cols w"
  shows "\<exists>w'. generate_rows sd rs w = Inr w'"
  using assms
proof (induction rs arbitrary: w)
  case Nil
  then show ?case by simp
next
  case (Cons r rs)
  show ?case
  proof (cases "lanes w r = None")
    case True
    obtain l w2 where m: "make_lane sd w r = Inr (l, w2)"
      using make_lane_total [OF Cons.prems] by blast
    have "1 \<le> cols (w2\<lparr>lanes := (lanes w2)(r \<mapsto> l),
        generated_max := max (generated_max w2) r\<rparr>)"
      using make_lane_cols [OF m] Cons.prems by simp
    from Cons.IH [OF this] show ?thesis using True m by simp
  next
    case False
    have "1 \<le> cols (w\<lparr>generated_max := max (generated_max w) r\<rparr>)"
      using Cons.prems by simp
    from Cons.IH [OF this] show ?thesis using False by auto
  qed
qed

lemma generate_rows_gm:
  assumes "generate_rows sd rs w = Inr w'"
  shows "generated_max w' = fold max rs (generated_max w)"
  using assms
proof (induction rs arbitrary: w)
  case Nil
  then show ?case by simp
next
  case (Cons r rs)
  from Cons.prems show ?case
  proof (cases rule: generate_rows_Cons)
    case present
    from Cons.IH [OF present(2)] show ?thesis by (simp add: max.commute)
  next
    case (missing l w2)
    from Cons.IH [OF missing(3)] make_lane_gm [OF missing(2)]
    show ?thesis by (simp add: max.commute)
  qed
qed

lemma fold_max_upto:
  "fold max [a..b] (g::int) = (if a \<le> b then max g b else g)"
proof (induction a b arbitrary: g rule: upto.induct)
  case (1 i j)
  show ?case
  proof (cases "i \<le> j")
    case True
    then have "[i..j] = i # [i + 1..j]" by (rule upto_rec1)
    then show ?thesis using 1 [OF True] True by auto
  next
    case False
    then show ?thesis by simp
  qed
qed

section \<open>The backfill loop and \<open>ensure_range\<close>\<close>

lemma backfill_rows_Cons:
  assumes "backfill_rows sd (r # rs) w = Inr w'"
  obtains (present) "lanes w r \<noteq> None" "backfill_rows sd rs w = Inr w'"
  | (missing) l where "lanes w r = None"
      "Lane_init sd r (cols w) Grass (grass_seed r) (Some (path_col w)) = Inr l"
      "backfill_rows sd rs (w\<lparr>lanes := (lanes w)(r \<mapsto> l)\<rparr>) = Inr w'"
  using assms by (auto split: if_splits sum.splits)

lemma backfill_rows_frame:
  assumes "backfill_rows sd rs w = Inr w'"
  shows "w' = w\<lparr>lanes := lanes w'\<rparr>"
  using assms
proof (induction rs arbitrary: w)
  case Nil
  then show ?case by simp
next
  case (Cons r rs)
  from Cons.prems show ?case
  proof (cases rule: backfill_rows_Cons)
    case present
    from Cons.IH [OF present(2)] show ?thesis .
  next
    case (missing l)
    from Cons.IH [OF missing(3)] show ?thesis by simp
  qed
qed

lemma backfill_rows_keeps:
  assumes "backfill_rows sd rs w = Inr w'" and "lanes w q = Some l0"
  shows "lanes w' q = Some l0"
  using assms
proof (induction rs arbitrary: w)
  case Nil
  then show ?case by simp
next
  case (Cons r rs)
  from Cons.prems(1) show ?case
  proof (cases rule: backfill_rows_Cons)
    case present
    from Cons.IH [OF present(2) Cons.prems(2)] show ?thesis .
  next
    case (missing l)
    have "q \<noteq> r" using missing(1) Cons.prems(2) by auto
    then have "lanes (w\<lparr>lanes := (lanes w)(r \<mapsto> l)\<rparr>) q = Some l0"
      using Cons.prems(2) by simp
    from Cons.IH [OF missing(3) this] show ?thesis .
  qed
qed

lemma backfill_rows_present:
  assumes "backfill_rows sd rs w = Inr w'" and "q \<in> set rs"
  shows "lanes w' q \<noteq> None"
  using assms
proof (induction rs arbitrary: w)
  case Nil
  then show ?case by simp
next
  case (Cons r rs)
  from Cons.prems(1) show ?case
  proof (cases rule: backfill_rows_Cons)
    case present
    show ?thesis
    proof (cases "q = r")
      case True
      then obtain l0 where "lanes w q = Some l0" using present(1) by auto
      from backfill_rows_keeps [OF present(2) this] show ?thesis by simp
    next
      case False
      then have "q \<in> set rs" using Cons.prems(2) by simp
      from Cons.IH [OF present(2) this] show ?thesis .
    qed
  next
    case (missing l)
    show ?thesis
    proof (cases "q = r")
      case True
      then have "lanes (w\<lparr>lanes := (lanes w)(r \<mapsto> l)\<rparr>) q = Some l" by simp
      from backfill_rows_keeps [OF missing(3) this] show ?thesis by simp
    next
      case False
      then have "q \<in> set rs" using Cons.prems(2) by simp
      from Cons.IH [OF missing(3) this] show ?thesis .
    qed
  qed
qed

lemma backfill_rows_created:
  assumes "backfill_rows sd rs w = Inr w'" and "lanes w q = None" and "lanes w' q = Some l0"
  shows "Lane_init sd q (cols w) Grass (grass_seed q) (Some (path_col w)) = Inr l0"
  using assms
proof (induction rs arbitrary: w)
  case Nil
  then show ?case by simp
next
  case (Cons r rs)
  from Cons.prems(1) show ?case
  proof (cases rule: backfill_rows_Cons)
    case present
    from Cons.IH [OF present(2) Cons.prems(2,3)] show ?thesis .
  next
    case (missing l)
    let ?w = "w\<lparr>lanes := (lanes w)(r \<mapsto> l)\<rparr>"
    show ?thesis
    proof (cases "q = r")
      case True
      then have "lanes ?w q = Some l" by simp
      from backfill_rows_keeps [OF missing(3) this] Cons.prems(3) have "l0 = l" by simp
      then show ?thesis using missing(2) True by simp
    next
      case False
      then have "lanes ?w q = None" using Cons.prems(2) by simp
      from Cons.IH [OF missing(3) this Cons.prems(3)] show ?thesis by simp
    qed
  qed
qed

lemma backfill_rows_total:
  assumes "1 \<le> cols w"
  shows "\<exists>w'. backfill_rows sd rs w = Inr w'"
  using assms
proof (induction rs arbitrary: w)
  case Nil
  then show ?case by simp
next
  case (Cons r rs)
  show ?case
  proof (cases "lanes w r = None")
    case True
    obtain l where m: "Lane_init sd r (cols w) Grass (grass_seed r) (Some (path_col w)) = Inr l"
      using Lane_init_Grass_total [OF Cons.prems] by blast
    have "1 \<le> cols (w\<lparr>lanes := (lanes w)(r \<mapsto> l)\<rparr>)" using Cons.prems by simp
    from Cons.IH [OF this] show ?thesis using True m by simp
  next
    case False
    from Cons.IH [OF Cons.prems] show ?thesis using False by auto
  qed
qed

lemma backfill_rows_fields:
  assumes "backfill_rows sd rs w = Inr w'"
  shows "cols w' = cols w" "generated_max w' = generated_max w" "path_col w' = path_col w"
    "rng w' = rng w" "road_remaining w' = road_remaining w"
    "next_road_start w' = next_road_start w"
proof -
  have f: "w' = w\<lparr>lanes := lanes w'\<rparr>" using assms by (rule backfill_rows_frame)
  show "cols w' = cols w" by (subst f) simp
  show "generated_max w' = generated_max w" by (subst f) simp
  show "path_col w' = path_col w" by (subst f) simp
  show "rng w' = rng w" by (subst f) simp
  show "road_remaining w' = road_remaining w" by (subst f) simp
  show "next_road_start w' = next_road_start w" by (subst f) simp
qed

lemma reset_cols [simp]: "cols (reset_if_far sd w lo) = cols w"
  and reset_lanes [simp]: "lanes (reset_if_far sd w lo) = lanes w"
  by (simp_all add: reset_if_far_def)

lemma reset_gm:
  "generated_max (reset_if_far sd w lo) =
     (if generated_max w < lo - 50 then lo - 1 else generated_max w)"
  by (simp add: reset_if_far_def)

lemma reset_path_ok:
  assumes "path_ok w"
  shows "path_ok (reset_if_far sd w lo)"
  using assms by (auto simp: reset_if_far_def path_ok_def)

lemma ensure_range_cases:
  assumes "ensure_range sd w lo hi = Inr w'"
  obtains w1 w2 where
    "generate_rows sd [max (generated_max (reset_if_far sd w lo) + 1) lo..hi]
       (reset_if_far sd w lo) = Inr w1"
    "backfill_rows sd [lo..min hi (generated_max w1)] w1 = Inr w2"
    "w' = evict w2 (lo - 2) (hi + 2)"
  using assms by (auto simp: ensure_range_def Let_def split: sum.splits)

lemma ensure_range_total:
  assumes "1 \<le> cols w"
  shows "\<exists>w'. ensure_range sd w lo hi = Inr w'"
proof -
  let ?w0 = "reset_if_far sd w lo"
  have "1 \<le> cols ?w0" using assms by simp
  then obtain w1 where
    g: "generate_rows sd [max (generated_max ?w0 + 1) lo..hi] ?w0 = Inr w1"
    using generate_rows_total by blast
  have "1 \<le> cols w1" using generate_rows_cols [OF g] assms by simp
  then obtain w2 where b: "backfill_rows sd [lo..min hi (generated_max w1)] w1 = Inr w2"
    using backfill_rows_total by blast
  show ?thesis using g b by (simp add: ensure_range_def Let_def)
qed

lemma ensure_range_cols:
  assumes "ensure_range sd w lo hi = Inr w'"
  shows "cols w' = cols w"
proof -
  from assms obtain w1 w2 where
    g: "generate_rows sd [max (generated_max (reset_if_far sd w lo) + 1) lo..hi]
       (reset_if_far sd w lo) = Inr w1"
    and b: "backfill_rows sd [lo..min hi (generated_max w1)] w1 = Inr w2"
    and e: "w' = evict w2 (lo - 2) (hi + 2)"
    by (rule ensure_range_cases)
  have "cols w2 = cols w1" using backfill_rows_fields(1) [OF b] .
  then show ?thesis using generate_rows_cols [OF g] e by (simp add: evict_def)
qed

lemma ensure_range_gm:
  assumes "ensure_range sd w lo hi = Inr w'"
  shows "generated_max w' =
     (let g0 = (if generated_max w < lo - 50 then lo - 1 else generated_max w)
      in if max (g0 + 1) lo \<le> hi then hi else g0)"
proof -
  from assms obtain w1 w2 where
    g: "generate_rows sd [max (generated_max (reset_if_far sd w lo) + 1) lo..hi]
       (reset_if_far sd w lo) = Inr w1"
    and b: "backfill_rows sd [lo..min hi (generated_max w1)] w1 = Inr w2"
    and e: "w' = evict w2 (lo - 2) (hi + 2)"
    by (rule ensure_range_cases)
  have "generated_max w2 = generated_max w1"
    using backfill_rows_fields(2) [OF b] .
  then have "generated_max w' = generated_max w1" using e by (simp add: evict_def)
  then show ?thesis
    using generate_rows_gm [OF g] by (auto simp: fold_max_upto reset_gm Let_def)
qed

section \<open>Invariants of the reachable worlds\<close>

lemma generate_rows_lanes_ok:
  assumes "generate_rows sd rs w = Inr w'" and "lanes_ok w"
  shows "lanes_ok w'"
  using assms
proof (induction rs arbitrary: w)
  case Nil
  then show ?case by simp
next
  case (Cons r rs)
  from Cons.prems(1) show ?case
  proof (cases rule: generate_rows_Cons)
    case present
    have "lanes_ok (w\<lparr>generated_max := max (generated_max w) r\<rparr>)"
      using Cons.prems(2) by (simp add: lanes_ok_def)
    from Cons.IH [OF present(2) this] show ?thesis .
  next
    case (missing l w2)
    have "row l = r" using make_lane_fields [OF missing(2)] by simp
    moreover have "r < SAFE_START_ROWS \<longrightarrow> kind l = Grass"
      using make_lane_safe [OF missing(2)] by simp
    ultimately have "lanes_ok (w2\<lparr>lanes := (lanes w2)(r \<mapsto> l),
        generated_max := max (generated_max w2) r\<rparr>)"
      using Cons.prems(2) make_lane_lanes [OF missing(2)] by (simp add: lanes_ok_def)
    from Cons.IH [OF missing(3) this] show ?thesis .
  qed
qed

lemma backfill_rows_lanes_ok:
  assumes "backfill_rows sd rs w = Inr w'" and "lanes_ok w"
  shows "lanes_ok w'"
  unfolding lanes_ok_def
proof (intro allI impI)
  fix r l
  assume l: "lanes w' r = Some l"
  show "row l = r \<and> (r < SAFE_START_ROWS \<longrightarrow> kind l = Grass)"
  proof (cases "lanes w r")
    case None
    from backfill_rows_created [OF assms(1) None l] Lane_init_fields show ?thesis by blast
  next
    case (Some l0)
    from backfill_rows_keeps [OF assms(1) Some] l have "l = l0" by simp
    then show ?thesis using Some assms(2) by (simp add: lanes_ok_def)
  qed
qed

lemma ensure_range_lanes_ok:
  assumes "ensure_range sd w lo hi = Inr w'" and "lanes_ok w"
  shows "lanes_ok w'"
proof -
  from assms(1) obtain w1 w2 where
    g: "generate_rows sd [max (generated_max (reset_if_far sd w lo) + 1) lo..hi]
       (reset_if_far sd w lo) = Inr w1"
    and b: "backfill_rows sd [lo..min hi (generated_max w1)] w1 = Inr w2"
    and e: "w' = evict w2 (lo - 2) (hi + 2)"
    by (rule ensure_range_cases)
  have "lanes_ok (reset_if_far sd w lo)" using assms(2) by (simp add: lanes_ok_def)
  from generate_rows_lanes_ok [OF g this] have "lanes_ok w1" .
  from backfill_rows_lanes_ok [OF b this] have "lanes_ok w2" .
  then show ?thesis using e by (auto simp: lanes_ok_def evict_def split: if_splits)
qed

lemma ensure_range_path_ok:
  assumes "ensure_range sd w lo hi = Inr w'" and "path_ok w"
  shows "path_ok w'"
proof -
  from assms(1) obtain w1 w2 where
    g: "generate_rows sd [max (generated_max (reset_if_far sd w lo) + 1) lo..hi]
       (reset_if_far sd w lo) = Inr w1"
    and b: "backfill_rows sd [lo..min hi (generated_max w1)] w1 = Inr w2"
    and e: "w' = evict w2 (lo - 2) (hi + 2)"
    by (rule ensure_range_cases)
  from generate_rows_path_ok [OF g reset_path_ok [OF assms(2)]] have "path_ok w1" .
  then have "path_ok w2" using backfill_rows_fields [OF b] by (simp add: path_ok_def)
  then show ?thesis using e by (simp add: path_ok_def evict_def)
qed

lemma World_init_path_ok: "path_ok (World_init sd c)"
  by (auto simp: path_ok_def World_init_def)

lemma World_init_lanes_ok: "lanes_ok (World_init sd c)"
  by (simp add: lanes_ok_def World_init_def)

lemma World_update_path_ok:
  assumes "path_ok w"
  shows "path_ok (World_update w dt cam)"
  using assms by (simp add: path_ok_def World_update_def)

lemma World_update_lanes_ok:
  assumes "lanes_ok w"
  shows "lanes_ok (World_update w dt cam)"
  using assms
  by (auto simp: lanes_ok_def World_update_def Lane_update_def Let_def
      split: option.splits if_splits)

lemma reachable_path_ok:
  assumes "reachable sd w"
  shows "path_ok w"
  using assms
proof (induction rule: reachable.induct)
  case (reach_init c)
  show ?case by (rule World_init_path_ok)
next
  case (reach_ensure w row_min row_max w')
  from ensure_range_path_ok [OF reach_ensure(2) reach_ensure.IH] show ?case .
next
  case (reach_update w dt camera_y)
  from World_update_path_ok [OF reach_update.IH] show ?case .
qed

lemma reachable_lanes_ok:
  assumes "reachable sd w"
  shows "lanes_ok w"
  using assms
proof (induction rule: reachable.induct)
  case (reach_init c)
  show ?case by (rule World_init_lanes_ok)
next
  case (reach_ensure w row_min row_max w')
  from ensure_range_lanes_ok [OF reach_ensure(2) reach_ensure.IH] show ?case .
next
  case (reach_update w dt camera_y)
  from World_update_lanes_ok [OF reach_update.IH] show ?case .
qed

lemma Lane_init_hint_open:
  assumes "Lane_init sd r c Grass s (Some f) = Inr l" and "0 \<le> f" and "f < c"
  shows "\<not> is_blocked l f"
proof -
  from Lane_init_Grass_forced [OF assms(1)] obtain l0 where
    len: "length (blocked l0) = nat c" and
    l: "l = l0\<lparr>blocked := (blocked l0)[nat f := False]\<rparr>"
    using assms(2,3) by auto
  have "kind l = Grass" using Lane_init_fields [OF assms(1)] by simp
  moreover have "length (blocked l) = nat c" using l len by simp
  moreover have "blocked l ! nat f = False" using l len assms(2,3) by simp
  ultimately show ?thesis using assms(2,3) by (simp add: is_blocked_def)
qed

lemma ensure_range_present:
  assumes "ensure_range sd w low high = Inr w'" and "low \<le> r" and "r \<le> high"
  shows "lanes w' r \<noteq> None"
proof -
  from assms(1) obtain w1 w2 where
    g: "generate_rows sd [max (generated_max (reset_if_far sd w low) + 1) low..high]
       (reset_if_far sd w low) = Inr w1"
    and b: "backfill_rows sd [low..min high (generated_max w1)] w1 = Inr w2"
    and e: "w' = evict w2 (low - 2) (high + 2)"
    by (rule ensure_range_cases)
  have "high \<le> generated_max w1"
    using generate_rows_gm [OF g] assms(2,3) by (auto simp: fold_max_upto split: if_splits)
  then have "r \<in> set [low..min high (generated_max w1)]" using assms(2,3) by simp
  from backfill_rows_present [OF b this] have "lanes w2 r \<noteq> None" .
  then show ?thesis using e assms(2,3) by (simp add: evict_def)
qed

lemma ensure_range_absent:
  assumes "ensure_range sd w low high = Inr w'" and "r < low - 2 \<or> high + 2 < r"
  shows "lanes w' r = None"
proof -
  from assms(1) obtain w2 where "w' = evict w2 (low - 2) (high + 2)"
    by (rule ensure_range_cases)
  then show ?thesis using assms(2) by (auto simp: evict_def)
qed

lemma World_init_cols [simp]: "cols (World_init sd c) = c"
  by (simp add: World_init_def)

lemma World_init_gm [simp]: "generated_max (World_init sd c) = - 999999"
  by (simp add: World_init_def)

section \<open>Facts for the scheduler, vehicles and concrete inputs\<close>

lemma schedule_row_spec:
  assumes "SAFE_START_ROWS \<le> r"
  shows "(fst (schedule_row w r), road_remaining (snd (schedule_row w r)),
          next_road_start (snd (schedule_row w r))) =
         spec_scheduler_step r (road_remaining w) (next_road_start w)
           (fst (randint (rng w) ROAD_SEGMENT_MIN ROAD_SEGMENT_MAX))
           (fst (randint (snd (randint (rng w) ROAD_SEGMENT_MIN ROAD_SEGMENT_MAX))
                   (- ROAD_JITTER) ROAD_JITTER))"
  using assms
  by (auto simp: schedule_row_def spec_scheduler_step_def schedule_next_road_start_def
      split_def Let_def)

lemma make_lane_schedule:
  assumes "SAFE_START_ROWS \<le> r" and "make_lane sd w r = Inr (l, w')"
  shows "kind l = fst (schedule_row w r) \<and>
         road_remaining w' = road_remaining (snd (schedule_row w r)) \<and>
         next_road_start w' = next_road_start (snd (schedule_row w r))"
proof -
  have t: "k \<noteq> Grass \<Longrightarrow> k = Road" for k by (cases k) simp_all
  show ?thesis
    using assms t [of "fst (schedule_row w r)"]
    by (auto simp: make_lane_def split_def Let_def split: if_splits sum.splits
        dest!: Lane_init_fields)
qed

lemma Car_update_range:
  assumes "dir c = 1 \<or> dir c = - 1" and "0 \<le> speed c" and "0 \<le> dt"
    and "real_of_int (- car_w c - 2 * TILE) \<le> car_x c"
    and "car_x c \<le> real_of_int (WIDTH + 2 * TILE)"
  shows "real_of_int (- car_w c - 2 * TILE) \<le> car_x (Car_update c dt) \<and>
         car_x (Car_update c dt) \<le> real_of_int (WIDTH + 2 * TILE)"
proof -
  let ?lo = "real_of_int (- car_w c - 2 * TILE)" and ?hi = "real_of_int (WIDTH + 2 * TILE)"
  define d where "d = speed c * dt"
  have d: "0 \<le> d" unfolding d_def using assms(2,3) by simp
  have lohi: "?lo \<le> ?hi" using assms(4,5) by linarith
  from assms(1) show ?thesis
  proof
    assume r: "dir c = 1"
    have x: "car_x (Car_update c dt) = (if car_x c + d > ?hi then ?lo else car_x c + d)"
      using r by (simp add: Car_update_def Let_def d_def)
    show ?thesis unfolding x using d lohi assms(4,5) by auto
  next
    assume l: "dir c = - 1"
    have x: "car_x (Car_update c dt) = (if car_x c - d < ?lo then ?hi else car_x c - d)"
      using l by (simp add: Car_update_def Let_def d_def)
    show ?thesis unfolding x using d lohi assms(4,5) by auto
  qed
qed

lemma Lane_init_Grass_length:
  assumes "Lane_init sd r c Grass s f = Inr l"
  shows "length (blocked l) = nat c"
  using assms
  by (auto simp: Lane_init_def split_def Let_def fill_blocked_length
      split: list.splits option.splits if_splits)

lemma shuffle_from_numeral_step:
  "shuffle_from (numeral k) xs (d ## g) =
     shuffle_from (pred_numeral k)
       (xs[numeral k := xs ! (d mod (numeral k + 1)), d mod (numeral k + 1) := xs ! numeral k]) g"
  by (simp add: numeral_eq_Suc randbelow_def)

lemma shuffle_from_1_step:
  "shuffle_from (Suc 0) xs (d ## g) = (xs[1 := xs ! (d mod 2), d mod 2 := xs ! 1], g)"
  by (simp add: randbelow_def numeral_2_eq_2)

lemma shuffle_9: "shuffle g [a0, a1, a2, a3, a4, a5, a6, a7, a8] =
    shuffle_from 8 [a0, a1, a2, a3, a4, a5, a6, a7, a8] g"
  by (simp add: shuffle_def eval_nat_numeral)

lemma fill_blocked_step:
  "fill_blocked go (c # cs) (d ## g) =
     (if c = go then False # fill_blocked go cs (d ## g)
      else (real (d mod 2 ^ 53) / 2 ^ 53 < TREE_CHANCE) # fill_blocked go cs g)"
  by (simp add: random_def)

lemma fill_blocked_hit:
  "fill_blocked go (go # cs) g = False # fill_blocked go cs g"
  by simp

lemma upto_0_8: "[0..8::int] = [0, 1, 2, 3, 4, 5, 6, 7, 8]"
  by (simp add: upto.simps)

lemma row1_shuffle:
  "shuffle (sample_seed 1930773) [0, 1, 2, 3, 4, 5, 6, 7, 8::int] =
    ([8, 1, 4, 6, 5, 0, 3, 7, 2],
     4405655995599643 ## 520944838793683 ## 4844883362163712 ## 7761806212291122 ##
      959226697287501 ## 7798928165728972 ## 7227856757546639 ## 8863633461707706 ## sconst 0)"
  by (simp add: shuffle_9 sample_seed_def shuffle_from_numeral_step shuffle_from_1_step
      del: shuffle_from.simps(2))

lemma row1_fill:
  "fill_blocked 8 [0, 1, 2, 3, 4, 5, 6, 7, 8]
     (4405655995599643 ## 520944838793683 ## 4844883362163712 ## 7761806212291122 ##
      959226697287501 ## 7798928165728972 ## 7227856757546639 ## 8863633461707706 ## sconst 0) =
   [False, True, False, False, True, False, False, False, False]"
  by (simp add: fill_blocked_step fill_blocked_hit TREE_CHANCE_def del: fill_blocked.simps(2))

lemma row1_lane:
  "Lane_init sample_seed 1 9 Grass (grass_seed 1) (Some f) =
     Inr \<lparr>row = 1, kind = Grass, lcols = 9,
          blocked = (if 0 \<le> f \<and> f < 9
                     then [False, True, False, False, True, False, False, False, False][nat f := False]
                     else [False, True, False, False, True, False, False, False, False]),
          cars = []\<rparr>"
  by (simp add: Lane_init_def Let_def grass_seed_def upto_0_8 row1_shuffle row1_fill
      del: fill_blocked.simps(2))

lemma ensure_range_no_advance:
  assumes "\<not> generated_max w < low - 50" and "high \<le> generated_max w"
    and "ensure_range sd w low high = Inr w'"
  shows "w' = w\<lparr>lanes := lanes w'\<rparr>"
proof -
  have r: "reset_if_far sd w low = w" using assms(1) by (simp add: reset_if_far_def)
  from assms(3) obtain w1 w2 where
    g: "generate_rows sd [max (generated_max (reset_if_far sd w low) + 1) low..high]
       (reset_if_far sd w low) = Inr w1"
    and b: "backfill_rows sd [low..min high (generated_max w1)] w1 = Inr w2"
    and e: "w' = evict w2 (low - 2) (high + 2)"
    by (rule ensure_range_cases)
  have "[max (generated_max w + 1) low..high] = []" using assms(2) by simp
  then have "w1 = w" using g r by simp
  then have w2: "w2 = w\<lparr>lanes := lanes w2\<rparr>" using backfill_rows_frame [OF b] by simp
  have "w' = w2\<lparr>lanes := lanes w'\<rparr>" using e by (simp add: evict_def)
  also have "\<dots> = w\<lparr>lanes := lanes w'\<rparr>" by (subst w2) simp
  finally show ?thesis .
qed

lemma World_init_schedule:
  "road_remaining (World_init sd c) = 0 \<and> next_road_start (World_init sd c) \<le> 12 \<and>
   lanes (World_init sd c) = Map.empty"
proof -
  have "- ROAD_JITTER \<le> ROAD_JITTER" by (simp add: constants)
  from randint_range [OF this, of "sd 1337"] show ?thesis
    by (simp add: World_init_def schedule_next_road_start_def split_def Let_def constants)
qed

lemma make_lane_starts_run:
  assumes "SAFE_START_ROWS \<le> r" and "road_remaining w = 0" and "next_road_start w \<le> r"
    and "make_lane sd w r = Inr (l, w')"
  shows "Lane_init sd r (cols w) Road (road_seed r) None = Inr l"
  using assms
  by (auto simp: make_lane_def schedule_row_def split_def Let_def split: if_splits sum.splits)

lemma Lane_init_Road_first_car:
  assumes "Lane_init sd r c Road s f = Inr l"
  shows "cars l \<noteq> [] \<and> 0 < speed (hd (cars l)) \<and> (dir (hd (cars l)) = 1 \<or> dir (hd (cars l)) = - 1)"
proof -
  define g where "g = sd s"
  define direction where "direction = fst (choice g [- 1, 1::int])"
  define g1 where "g1 = snd (choice g [- 1, 1::int])"
  define m where "m = fst (uniform g1 (85 / 100) (115 / 100))"
  define g2 where "g2 = snd (uniform g1 (85 / 100) (115 / 100))"
  define sp where "sp = lerp CAR_SPEED_MIN CAR_SPEED_MAX (clamp (real_of_int r / 60) 0 1) * m"
  define x0 where "x0 = fst (uniform g2 (real_of_int (- 2 * TILE)) (real_of_int (2 * TILE)))"
  define g3 where "g3 = snd (uniform g2 (real_of_int (- 2 * TILE)) (real_of_int (2 * TILE)))"
  have c: "cars l = place_cars x0 sp direction g3"
    using assms
    by (auto simp: Lane_init_def split_def Let_def g_def direction_def g1_def m_def g2_def
        sp_def x0_def g3_def)
  have "x0 \<le> real_of_int (2 * TILE)"
    using uniform_range [of "real_of_int (- 2 * TILE)" "real_of_int (2 * TILE)" g2]
    by (simp add: x0_def TILE_def)
  then have lt: "x0 < real_of_int WIDTH + 3 * real_of_int TILE" by (simp add: constants)
  have p: "place_cars x0 sp direction g3 =
      Car_init x0 (fst (randint g3 CAR_LEN_MIN CAR_LEN_MAX)) sp direction # tl (place_cars x0 sp direction g3)"
    by (subst place_cars.simps, subst (2) place_cars.simps) (simp add: lt Let_def)
  have m: "85 / 100 \<le> m"
    using uniform_range [of "85 / 100" "115 / 100" g1] by (simp add: m_def)
  have "0 \<le> clamp (real_of_int r / 60) 0 (1::real)" by (simp add: clamp_def)
  then have "0 < lerp CAR_SPEED_MIN CAR_SPEED_MAX (clamp (real_of_int r / 60) 0 1)"
    by (simp add: lerp_def constants add_pos_nonneg)
  then have sp: "0 < sp" using m by (simp add: sp_def)
  define k where "k = shd g mod length [- 1, 1::int]"
  have "k < length [- 1, 1::int]" unfolding k_def by (rule mod_less_divisor) simp
  then have "k < 2" by simp
  then have k: "k = 0 \<or> k = 1" by auto
  have "direction = [- 1, 1] ! k"
    by (simp add: direction_def choice_def randbelow_def k_def)
  then have d: "direction = 1 \<or> direction = - 1" using k by auto
  from p obtain cs where p': "place_cars x0 sp direction g3 =
      Car_init x0 (fst (randint g3 CAR_LEN_MIN CAR_LEN_MAX)) sp direction # cs"
    by blast
  show ?thesis using c p' sp d by (simp add: Car_init_def)
qed

lemma first_call_row_20:
  assumes "ensure_range sd (World_init sd c) 20 20 = Inr w"
  shows "\<exists>l. lanes w 20 = Some l \<and> Lane_init sd 20 c Road (road_seed 20) None = Inr l"
proof -
  let ?w0 = "reset_if_far sd (World_init sd c) 20"
  have w0: "?w0 = (World_init sd c)\<lparr>generated_max := 19\<rparr>"
    by (simp add: reset_if_far_def World_init_def schedule_next_road_start_def split_def Let_def)
  from assms obtain w1 w2 where
    g: "generate_rows sd [max (generated_max ?w0 + 1) 20..20] ?w0 = Inr w1"
    and b: "backfill_rows sd [20..min 20 (generated_max w1)] w1 = Inr w2"
    and e: "w = evict w2 (20 - 2) (20 + 2)"
    by (rule ensure_range_cases)
  have "[max (generated_max ?w0 + 1) 20..20] = [20]" by (simp add: w0)
  then have g': "generate_rows sd [20] ?w0 = Inr w1" using g by simp
  have s: "road_remaining ?w0 = 0" "next_road_start ?w0 \<le> 20" "lanes ?w0 20 = None"
    "cols ?w0 = c"
    using World_init_schedule [of sd c] by (simp_all add: w0)
  from g' obtain l where l: "Lane_init sd 20 c Road (road_seed 20) None = Inr l"
    and l1: "lanes w1 20 = Some l"
  proof (cases rule: generate_rows_Cons)
    case present
    then show ?thesis using s(3) by simp
  next
    case (missing l w2)
    have "SAFE_START_ROWS \<le> 20" by (simp add: SAFE_START_ROWS_def)
    from make_lane_starts_run [OF this s(1,2) missing(2)] s(4)
    have "Lane_init sd 20 c Road (road_seed 20) None = Inr l" by simp
    moreover have "lanes w1 20 = Some l" using missing(3) by auto
    ultimately show ?thesis using that by blast
  qed
  from backfill_rows_keeps [OF b l1] have "lanes w2 20 = Some l" .
  then have "lanes w 20 = Some l" using e by (simp add: evict_def)
  then show ?thesis using l by blast
qed

section \<open>The reset, the backfill loop and the first window of a new world\<close>

lemma nrs_lanes_upd:
  "schedule_next_road_start (w\<lparr>lanes := m\<rparr>) r = (schedule_next_road_start w r)\<lparr>lanes := m\<rparr>"
  by (simp add: schedule_next_road_start_def split_def Let_def)

lemma wiggle_lanes_upd:
  "maybe_wiggle_path (w\<lparr>lanes := m\<rparr>) = (maybe_wiggle_path w)\<lparr>lanes := m\<rparr>"
  by (simp add: maybe_wiggle_path_def split_def Let_def)

lemma sched_lanes_upd:
  "schedule_row (w\<lparr>lanes := m\<rparr>) r =
     (fst (schedule_row w r), (snd (schedule_row w r))\<lparr>lanes := m\<rparr>)"
  by (simp add: schedule_row_def schedule_next_road_start_def split_def Let_def)

lemma make_lane_lanes_upd:
  "make_lane sd (w\<lparr>lanes := m\<rparr>) r =
     map_sum id (\<lambda>(l, w'). (l, w'\<lparr>lanes := m\<rparr>)) (make_lane sd w r)"
  by (simp add: make_lane_def sched_lanes_upd wiggle_lanes_upd split_def Let_def
      split: sum.splits)

lemma generate_rows_old:
  assumes "dom old \<inter> set rs = {}"
  shows "generate_rows sd rs (w\<lparr>lanes := old ++ lanes w\<rparr>) =
           map_sum id (\<lambda>w'. w'\<lparr>lanes := old ++ lanes w'\<rparr>) (generate_rows sd rs w)"
  using assms
proof (induction rs arbitrary: w)
  case Nil
  then show ?case by simp
next
  case (Cons r rs)
  have o: "old r = None" and d: "dom old \<inter> set rs = {}" using Cons.prems by auto
  show ?case
  proof (cases "lanes w r")
    case (Some y)
    let ?u = "w\<lparr>generated_max := max (generated_max w) r\<rparr>"
    have y': "(old ++ lanes w) r = Some y" using Some by simp
    have s1: "generate_rows sd (r # rs) (w\<lparr>lanes := old ++ lanes w\<rparr>) =
        generate_rows sd rs
          ((w\<lparr>lanes := old ++ lanes w\<rparr>)\<lparr>generated_max := max (generated_max w) r\<rparr>)"
      using y' by simp
    have rec: "(w\<lparr>lanes := old ++ lanes w\<rparr>)\<lparr>generated_max := max (generated_max w) r\<rparr> =
        ?u\<lparr>lanes := old ++ lanes ?u\<rparr>"
      by simp
    have s3: "generate_rows sd (r # rs) w = generate_rows sd rs ?u" using Some by simp
    show ?thesis by (simp only: s1 rec s3 Cons.IH [OF d])
  next
    case None
    have n: "(old ++ lanes w) r = None" using None o by simp
    show ?thesis
    proof (cases "make_lane sd w r")
      case (Inl e)
      then show ?thesis using None n by (simp add: make_lane_lanes_upd)
    next
      case (Inr p)
      obtain l w2 where p: "p = (l, w2)" by (cases p)
      let ?v = "w2\<lparr>lanes := (lanes w2)(r \<mapsto> l), generated_max := max (generated_max w2) r\<rparr>"
      have lw: "lanes w2 = lanes w" using make_lane_lanes [of sd w r l w2] Inr p by simp
      have s1: "generate_rows sd (r # rs) (w\<lparr>lanes := old ++ lanes w\<rparr>) =
          generate_rows sd rs
            ((w2\<lparr>lanes := old ++ lanes w\<rparr>)\<lparr>lanes := (old ++ lanes w)(r \<mapsto> l),
               generated_max := max (generated_max w2) r\<rparr>)"
        using n Inr p by (simp add: make_lane_lanes_upd)
      have rec: "(w2\<lparr>lanes := old ++ lanes w\<rparr>)\<lparr>lanes := (old ++ lanes w)(r \<mapsto> l),
          generated_max := max (generated_max w2) r\<rparr> = ?v\<lparr>lanes := old ++ lanes ?v\<rparr>"
        by (simp add: lw)
      have s3: "generate_rows sd (r # rs) w = generate_rows sd rs ?v"
        using None Inr p by simp
      show ?thesis by (simp only: s1 rec s3 Cons.IH [OF d])
    qed
  qed
qed

lemma backfill_rows_old:
  assumes "dom old \<inter> set rs = {}"
  shows "backfill_rows sd rs (w\<lparr>lanes := old ++ lanes w\<rparr>) =
           map_sum id (\<lambda>w'. w'\<lparr>lanes := old ++ lanes w'\<rparr>) (backfill_rows sd rs w)"
  using assms
proof (induction rs arbitrary: w)
  case Nil
  then show ?case by simp
next
  case (Cons r rs)
  have o: "old r = None" and d: "dom old \<inter> set rs = {}" using Cons.prems by auto
  show ?case
  proof (cases "lanes w r")
    case (Some y)
    have y': "(old ++ lanes w) r = Some y" using Some by simp
    have s1: "backfill_rows sd (r # rs) (w\<lparr>lanes := old ++ lanes w\<rparr>) =
        backfill_rows sd rs (w\<lparr>lanes := old ++ lanes w\<rparr>)"
      using y' by simp
    have s3: "backfill_rows sd (r # rs) w = backfill_rows sd rs w" using Some by simp
    show ?thesis by (simp only: s1 s3 Cons.IH [OF d])
  next
    case None
    have n: "(old ++ lanes w) r = None" using None o by simp
    show ?thesis
    proof (cases "Lane_init sd r (cols w) Grass (grass_seed r) (Some (path_col w))")
      case (Inl e)
      then show ?thesis using None n by simp
    next
      case (Inr l)
      let ?v = "w\<lparr>lanes := (lanes w)(r \<mapsto> l)\<rparr>"
      have s1: "backfill_rows sd (r # rs) (w\<lparr>lanes := old ++ lanes w\<rparr>) =
          backfill_rows sd rs
            ((w\<lparr>lanes := old ++ lanes w\<rparr>)\<lparr>lanes := (old ++ lanes w)(r \<mapsto> l)\<rparr>)"
        using n Inr by simp
      have rec: "(w\<lparr>lanes := old ++ lanes w\<rparr>)\<lparr>lanes := (old ++ lanes w)(r \<mapsto> l)\<rparr> =
          ?v\<lparr>lanes := old ++ lanes ?v\<rparr>"
        by simp
      have s3: "backfill_rows sd (r # rs) w = backfill_rows sd rs ?v" using None Inr by simp
      show ?thesis by (simp only: s1 rec s3 Cons.IH [OF d])
    qed
  qed
qed

lemma backfill_rows_new:
  assumes "backfill_rows sd rs w = Inr w'" and "q \<notin> set rs"
  shows "lanes w' q = lanes w q"
  using assms
proof (induction rs arbitrary: w)
  case Nil
  then show ?case by simp
next
  case (Cons r rs)
  have q: "q \<noteq> r" "q \<notin> set rs" using Cons.prems(2) by auto
  from Cons.prems(1) show ?case
  proof (cases rule: backfill_rows_Cons)
    case present
    from Cons.IH [OF present(2) q(2)] show ?thesis .
  next
    case (missing l)
    from Cons.IH [OF missing(3) q(2)] q(1) show ?thesis by simp
  qed
qed

lemma generate_rows_rows_le_gm:
  assumes "generate_rows sd rs w = Inr w'" and "rows_le_gm w"
  shows "rows_le_gm w'"
  using assms
proof (induction rs arbitrary: w)
  case Nil
  then show ?case by simp
next
  case (Cons r rs)
  from Cons.prems(1) show ?case
  proof (cases rule: generate_rows_Cons)
    case present
    have "rows_le_gm (w\<lparr>generated_max := max (generated_max w) r\<rparr>)"
      using Cons.prems(2) by (auto simp: rows_le_gm_def)
    from Cons.IH [OF present(2) this] show ?thesis .
  next
    case (missing l w2)
    have "rows_le_gm (w2\<lparr>lanes := (lanes w2)(r \<mapsto> l),
        generated_max := max (generated_max w2) r\<rparr>)"
      using Cons.prems(2) make_lane_lanes [OF missing(2)] make_lane_gm [OF missing(2)]
      by (auto simp: rows_le_gm_def)
    from Cons.IH [OF missing(3) this] show ?thesis .
  qed
qed

lemma ensure_range_rows_le_gm:
  assumes "ensure_range sd w lo hi = Inr w'" and "rows_le_gm w"
  shows "rows_le_gm w'"
proof -
  from assms(1) obtain w1 w2 where
    g: "generate_rows sd [max (generated_max (reset_if_far sd w lo) + 1) lo..hi]
       (reset_if_far sd w lo) = Inr w1"
    and b: "backfill_rows sd [lo..min hi (generated_max w1)] w1 = Inr w2"
    and e: "w' = evict w2 (lo - 2) (hi + 2)"
    by (rule ensure_range_cases)
  have "rows_le_gm (reset_if_far sd w lo)"
    using assms(2) by (auto simp: rows_le_gm_def reset_gm)
  from generate_rows_rows_le_gm [OF g this] have 1: "rows_le_gm w1" .
  have 2: "rows_le_gm w2"
    unfolding rows_le_gm_def
  proof (intro allI impI)
    fix r
    assume r: "lanes w2 r \<noteq> None"
    show "r \<le> generated_max w2"
    proof (cases "r \<in> set [lo..min hi (generated_max w1)]")
      case True
      then show ?thesis using backfill_rows_fields(2) [OF b] by simp
    next
      case False
      from backfill_rows_new [OF b False] r 1 show ?thesis
        using backfill_rows_fields(2) [OF b] by (simp add: rows_le_gm_def)
    qed
  qed
  then show ?thesis using e by (auto simp: rows_le_gm_def evict_def split: if_splits)
qed

lemma reachable_rows_le_gm:
  assumes "reachable sd w"
  shows "rows_le_gm w"
  using assms
proof (induction rule: reachable.induct)
  case (reach_init c)
  show ?case by (simp add: rows_le_gm_def World_init_def)
next
  case (reach_ensure w row_min row_max w')
  from ensure_range_rows_le_gm [OF reach_ensure(2) reach_ensure.IH] show ?case .
next
  case (reach_update w dt camera_y)
  then show ?case
    by (auto simp: rows_le_gm_def World_update_def split: option.splits)
qed

lemma reset_taken:
  assumes "generated_max w < low - 50"
  shows "reset_if_far sd w low =
           ((World_init sd (cols w))\<lparr>generated_max := low - 1\<rparr>)\<lparr>lanes := lanes w\<rparr>"
  using assms
  by (simp add: reset_if_far_def World_init_def schedule_next_road_start_def split_def Let_def)

lemma reset_not_taken_on_new:
  "reset_if_far sd ((World_init sd c)\<lparr>generated_max := low - 1\<rparr>) low =
     (World_init sd c)\<lparr>generated_max := low - 1\<rparr>"
  by (simp add: reset_if_far_def)

lemma evict_old:
  assumes "\<forall>r. old r \<noteq> None \<longrightarrow> r < a"
  shows "evict (w\<lparr>lanes := old ++ lanes w\<rparr>) a b = evict w a b"
proof -
  have "(\<lambda>r. if r < a \<or> b < r then None else (old ++ lanes w) r) =
        (\<lambda>r. if r < a \<or> b < r then None else lanes w r)"
  proof (rule ext)
    fix r
    show "(if r < a \<or> b < r then None else (old ++ lanes w) r) =
        (if r < a \<or> b < r then None else lanes w r)"
      using assms by (auto simp: map_add_def split: option.splits)
  qed
  then have h: "(\<lambda>r. if r < a \<or> b < r then None else (old ++ lanes w) r) =
        (\<lambda>r. if r < a \<or> b < r then None else lanes w r)" .
  have e1: "evict (w\<lparr>lanes := old ++ lanes w\<rparr>) a b =
      w\<lparr>lanes := (\<lambda>r. if r < a \<or> b < r then None else (old ++ lanes w) r)\<rparr>"
    by (simp add: evict_def cong: if_cong)
  have e2: "evict w a b = w\<lparr>lanes := (\<lambda>r. if r < a \<or> b < r then None else lanes w r)\<rparr>"
    by (simp add: evict_def)
  show ?thesis by (simp only: e1 e2 h)
qed

lemma ensure_range_full_reset:
  assumes "rows_le_gm w" and "generated_max w < low - 50"
  shows "ensure_range sd w low high =
           ensure_range sd ((World_init sd (cols w))\<lparr>generated_max := low - 1\<rparr>) low high"
proof -
  let ?F = "(World_init sd (cols w))\<lparr>generated_max := low - 1\<rparr>"
  let ?old = "lanes w"
  have old: "\<forall>r. ?old r \<noteq> None \<longrightarrow> r < low - 2"
    using assms by (auto simp: rows_le_gm_def)
  have lF: "lanes ?F = Map.empty" by (simp add: World_init_def)
  have R: "reset_if_far sd w low = ?F\<lparr>lanes := ?old ++ lanes ?F\<rparr>"
    using reset_taken [OF assms(2)] lF by simp
  have RF: "reset_if_far sd ?F low = ?F" by (rule reset_not_taken_on_new)
  have gF: "generated_max ?F = low - 1" by simp
  have d1: "dom ?old \<inter> set [low..high] = {}" using old by fastforce
  have G: "generate_rows sd [low..high] (?F\<lparr>lanes := ?old ++ lanes ?F\<rparr>) =
      map_sum id (\<lambda>w'. w'\<lparr>lanes := ?old ++ lanes w'\<rparr>) (generate_rows sd [low..high] ?F)"
    using d1 by (rule generate_rows_old)
  show ?thesis
  proof (cases "generate_rows sd [low..high] ?F")
    case (Inl e)
    then show ?thesis using G by (simp add: ensure_range_def R RF Let_def)
  next
    case (Inr w1)
    let ?rs = "[low..min high (generated_max w1)]"
    have d2: "dom ?old \<inter> set ?rs = {}" using old by fastforce
    have B: "backfill_rows sd ?rs (w1\<lparr>lanes := ?old ++ lanes w1\<rparr>) =
        map_sum id (\<lambda>w'. w'\<lparr>lanes := ?old ++ lanes w'\<rparr>) (backfill_rows sd ?rs w1)"
      using d2 by (rule backfill_rows_old)
    have old': "\<forall>r. ?old r \<noteq> None \<longrightarrow> r < low - 2" using old .
    show ?thesis
    proof (cases "backfill_rows sd ?rs w1")
      case bl: (Inl e)
      then show ?thesis using G Inr B by (simp add: ensure_range_def R RF Let_def)
    next
      case br: (Inr w2)
      then show ?thesis
        using G Inr B evict_old [OF old', of w2 "high + 2"]
        by (simp add: ensure_range_def R RF Let_def)
    qed
  qed
qed

lemma ensure_range_reset_clears:
  assumes "rows_le_gm w" and "generated_max w < low - 50"
    and "ensure_range sd w low high = Inr w'" and "lanes w r \<noteq> None"
  shows "lanes w' r = None"
proof -
  have "r < low - 2" using assms(1,2,4) by (auto simp: rows_le_gm_def)
  then show ?thesis using ensure_range_absent [OF assms(3)] by simp
qed

lemma first_call_state:
  assumes "ensure_range sd (World_init sd c) 20 20 = Inr w"
  shows "\<exists>l w2. make_lane sd ((World_init sd c)\<lparr>generated_max := 19\<rparr>) 20 = Inr (l, w2) \<and>
           road_remaining w = road_remaining w2 \<and> next_road_start w = next_road_start w2 \<and>
           generated_max w = 20"
proof -
  let ?w0 = "reset_if_far sd (World_init sd c) 20"
  have w0: "?w0 = (World_init sd c)\<lparr>generated_max := 19\<rparr>"
    by (simp add: reset_if_far_def World_init_def schedule_next_road_start_def split_def Let_def)
  from assms obtain w1 w2 where
    g: "generate_rows sd [max (generated_max ?w0 + 1) 20..20] ?w0 = Inr w1"
    and b: "backfill_rows sd [20..min 20 (generated_max w1)] w1 = Inr w2"
    and e: "w = evict w2 (20 - 2) (20 + 2)"
    by (rule ensure_range_cases)
  have "[max (generated_max ?w0 + 1) 20..20] = [20]" by (simp add: w0)
  then have g': "generate_rows sd [20] ?w0 = Inr w1" using g by simp
  have f: "road_remaining w = road_remaining w1" "next_road_start w = next_road_start w1"
    "generated_max w = generated_max w1"
    using backfill_rows_fields [OF b] e by (simp_all add: evict_def)
  have s: "lanes ?w0 20 = None" using World_init_schedule [of sd c] by (simp add: w0)
  from g' show ?thesis
  proof (cases rule: generate_rows_Cons)
    case present
    then show ?thesis using s by simp
  next
    case (missing l v)
    have "generated_max v = 19" using make_lane_gm [OF missing(2)] by (simp add: w0)
    then have "road_remaining w1 = road_remaining v \<and> next_road_start w1 = next_road_start v \<and>
        generated_max w1 = 20"
      using missing(3) by auto
    then show ?thesis using missing(2) f by (simp add: w0)
  qed
qed

lemma ensure_range_backfill_kind:
  assumes "\<not> generated_max w < low - 50" and "high \<le> generated_max w"
    and "ensure_range sd w low high = Inr w'" and "lanes w r = None" and "lanes w' r = Some l"
  shows "kind l = Grass"
proof -
  have rs: "reset_if_far sd w low = w" using assms(1) by (simp add: reset_if_far_def)
  from assms(3) obtain w1 w2 where
    g: "generate_rows sd [max (generated_max (reset_if_far sd w low) + 1) low..high]
       (reset_if_far sd w low) = Inr w1"
    and b: "backfill_rows sd [low..min high (generated_max w1)] w1 = Inr w2"
    and e: "w' = evict w2 (low - 2) (high + 2)"
    by (rule ensure_range_cases)
  have "[max (generated_max w + 1) low..high] = []" using assms(2) by simp
  then have "w1 = w" using g rs by simp
  moreover have "lanes w2 r = Some l" using assms(5) e by (simp add: evict_def split: if_splits)
  ultimately have "Lane_init sd r (cols w) Grass (grass_seed r) (Some (path_col w)) = Inr l"
    using backfill_rows_created [OF b] assms(4) by simp
  then show ?thesis using Lane_init_fields by blast
qed

lemma sample_world:
  "road_remaining (World_init sample_seed 9) = 0"
  "next_road_start (World_init sample_seed 9) = 12"
  "rng (World_init sample_seed 9) = 2 ## 2 ## sconst 0"
  by (simp_all add: World_init_def schedule_next_road_start_def randint_def randbelow_def
      sample_seed_def constants)

section \<open>The claims\<close>

text \<open>
  C1. Every Open (grass) lane that the scheduler path \<open>_make_lane\<close> produces in a reachable
  world is not blocked at the forced-open column it was generated with, which is the path
  column of the world after the call.
\<close>

theorem C1_forced_column_open:
  assumes "reachable sd w" and "make_lane sd w r = Inr (l, w')" and "kind l = Grass"
  shows "\<not> is_blocked l (path_col w')"
proof -
  have c: "1 \<le> cols w" using make_lane_Grass_cols [OF assms(2,3)] .
  have "path_ok w'" using make_lane_path_ok [OF assms(2) reachable_path_ok [OF assms(1)]] .
  then have p: "0 \<le> path_col w'" "path_col w' < cols w"
    using c make_lane_cols [OF assms(2)] by (simp_all add: path_ok_def)
  from Lane_init_hint_open [OF make_lane_Grass_hint [OF assms(2,3)] p] show ?thesis .
qed

theorem C1_forced_column_open_witness:
  "\<exists>l w'. make_lane sample_seed (World_init sample_seed 9) 0 = Inr (l, w') \<and>
     kind l = Grass \<and> \<not> is_blocked l (path_col w')"
proof -
  have "1 \<le> cols (World_init sample_seed 9)" by simp
  then obtain l w' where m: "make_lane sample_seed (World_init sample_seed 9) 0 = Inr (l, w')"
    using make_lane_total by blast
  have k: "kind l = Grass" using make_lane_safe [OF m] by (simp add: SAFE_START_ROWS_def)
  have "\<not> is_blocked l (path_col w')"
    using C1_forced_column_open [OF reach_init m k] .
  then show ?thesis using m k by blast
qed

text \<open>
  C2. In a world of at least one column \<open>ensure_range(low, high)\<close> returns, and after every
  call that returns \<open>get_lane(r)\<close> is present for every \<open>r\<close> in \<open>[low, high]\<close> and absent for
  every \<open>r < low - 2\<close> and every \<open>r > high + 2\<close>. This holds in every state of the world,
  reachable or not.
\<close>

theorem C2_windowing:
  "(1 \<le> cols w \<longrightarrow> (\<exists>w'. ensure_range sd w low high = Inr w')) \<and>
   (\<forall>w'. ensure_range sd w low high = Inr w' \<longrightarrow>
      (\<forall>r. low \<le> r \<and> r \<le> high \<longrightarrow> get_lane w' r \<noteq> None) \<and>
      (\<forall>r. r < low - 2 \<or> r > high + 2 \<longrightarrow> get_lane w' r = None))"
proof (intro conjI impI allI)
  assume "1 \<le> cols w"
  then show "\<exists>w'. ensure_range sd w low high = Inr w'" by (rule ensure_range_total)
next
  fix w' r
  assume "ensure_range sd w low high = Inr w'" and "low \<le> r \<and> r \<le> high"
  then show "get_lane w' r \<noteq> None"
    using ensure_range_present [of sd w low high w' r] by (simp add: get_lane_def)
next
  fix w' r
  assume "ensure_range sd w low high = Inr w'" and "r < low - 2 \<or> high + 2 < r"
  then show "get_lane w' r = None"
    using ensure_range_absent [of sd w low high w' r] by (simp add: get_lane_def)
qed

theorem C2_windowing_witness:
  "\<exists>w'. ensure_range sample_seed (World_init sample_seed 9) 0 5 = Inr w' \<and>
     get_lane w' 3 \<noteq> None \<and> get_lane w' 8 = None \<and> get_lane w' (- 3) = None"
proof -
  have c: "1 \<le> cols (World_init sample_seed 9)" by simp
  from C2_windowing [of "World_init sample_seed 9" sample_seed 0 5] c
  obtain w' where e: "ensure_range sample_seed (World_init sample_seed 9) 0 5 = Inr w'"
    by blast
  from C2_windowing [of "World_init sample_seed 9" sample_seed 0 5] e
  have "get_lane w' 3 \<noteq> None" and "get_lane w' 8 = None" and "get_lane w' (- 3) = None"
    by simp_all
  then show ?thesis using e by blast
qed

text \<open>
  C3 (amended). If \<open>ensure_range(low, high)\<close> is called on a reachable world whose
  \<open>generated_max\<close> is more than 50 rows below \<open>low\<close> (the window has jumped more than the
  fixed margin ahead of the last generation point), the call performs a full reset: it
  returns what it returns on a newly constructed world whose \<open>generated_max\<close> is \<open>low - 1\<close>,
  so the scheduler state, the generator and the path column restart from their initial
  values, and every lane materialized before the call is gone after it.
\<close>

theorem C3_full_reset_on_forward_jump:
  assumes "reachable sd w" and "generated_max w < low - 50"
  shows "ensure_range sd w low high =
           ensure_range sd ((World_init sd (cols w))\<lparr>generated_max := low - 1\<rparr>) low high \<and>
         (\<forall>w' r. ensure_range sd w low high = Inr w' \<longrightarrow> get_lane w r \<noteq> None \<longrightarrow>
            get_lane w' r = None)"
  using ensure_range_full_reset [OF reachable_rows_le_gm [OF assms(1)] assms(2)]
    ensure_range_reset_clears [OF reachable_rows_le_gm [OF assms(1)] assms(2)]
  by (simp add: get_lane_def)

theorem C3_full_reset_on_forward_jump_witness:
  "\<exists>w0 w1. ensure_range sample_seed (World_init sample_seed 9) (- 10) 30 = Inr w0 \<and>
     generated_max w0 = 30 \<and> get_lane w0 0 \<noteq> None \<and>
     ensure_range sample_seed w0 100 140 = Inr w1 \<and> get_lane w1 0 = None \<and>
     ensure_range sample_seed w0 100 140 =
       ensure_range sample_seed ((World_init sample_seed 9)\<lparr>generated_max := 99\<rparr>) 100 140"
proof -
  have "1 \<le> cols (World_init sample_seed 9)" by simp
  then obtain w0 where e0: "ensure_range sample_seed (World_init sample_seed 9) (- 10) 30 = Inr w0"
    using ensure_range_total by blast
  have r0: "reachable sample_seed w0" using reach_ensure [OF reach_init e0] .
  have g0: "generated_max w0 = 30" using ensure_range_gm [OF e0] by simp
  have c0: "cols w0 = 9" using ensure_range_cols [OF e0] by simp
  have l0: "get_lane w0 0 \<noteq> None"
    using ensure_range_present [OF e0, of 0] by (simp add: get_lane_def)
  obtain w1 where e1: "ensure_range sample_seed w0 100 140 = Inr w1"
    using ensure_range_total [of w0 sample_seed 100 140] c0 by auto
  have j: "generated_max w0 < 100 - 50" using g0 by simp
  from C3_full_reset_on_forward_jump [OF r0 j, of 140] e1 l0 c0
  have "get_lane w1 0 = None" and "ensure_range sample_seed w0 100 140 =
       ensure_range sample_seed ((World_init sample_seed 9)\<lparr>generated_max := 99\<rparr>) 100 140"
    by auto
  then show ?thesis using e0 g0 l0 e1 by blast
qed

text \<open>
  C3 as stated fails: after the first window \<open>[-10, 30]\<close> the window \<open>[-100, -60]\<close> has
  regressed 130 rows behind \<open>generated_max = 30\<close>, and the call resets nothing.
\<close>

theorem C3_counterexample:
  "\<exists>w0 w1. ensure_range sample_seed (World_init sample_seed 9) (- 10) 30 = Inr w0 \<and>
     generated_max w0 = 30 \<and>
     ensure_range sample_seed w0 (- 100) (- 60) = Inr w1 \<and>
     generated_max w1 = 30 \<and> rng w1 = rng w0 \<and> path_col w1 = path_col w0 \<and>
     road_remaining w1 = road_remaining w0 \<and> next_road_start w1 = next_road_start w0"
proof -
  have "1 \<le> cols (World_init sample_seed 9)" by simp
  then obtain w0 where e0: "ensure_range sample_seed (World_init sample_seed 9) (- 10) 30 = Inr w0"
    using ensure_range_total by blast
  have g0: "generated_max w0 = 30" using ensure_range_gm [OF e0] by simp
  have "1 \<le> cols w0" using ensure_range_cols [OF e0] by simp
  then obtain w1 where e1: "ensure_range sample_seed w0 (- 100) (- 60) = Inr w1"
    using ensure_range_total by blast
  have f: "w1 = w0\<lparr>lanes := lanes w1\<rparr>"
    using ensure_range_no_advance [OF _ _ e1] g0 by simp
  have "generated_max w1 = 30" by (subst f) (simp add: g0)
  moreover have "rng w1 = rng w0" by (subst f) simp
  moreover have "path_col w1 = path_col w0" by (subst f) simp
  moreover have "road_remaining w1 = road_remaining w0" by (subst f) simp
  moreover have "next_road_start w1 = next_road_start w0" by (subst f) simp
  ultimately show ?thesis using e0 g0 e1 by blast
qed

text \<open>
  C4 (amended). The content of a lane is a function of row, column count, kind, seed and the
  forced-open hint. Two lanes built for the same row, column count, kind and seed are equal
  when they are Hazard lanes; Open lanes have no vehicles and bitmaps of equal length that
  agree on every column that is neither of the two hints.
\<close>

theorem C4_lane_content:
  assumes "Lane_init sd r c k s f1 = Inr l1" and "Lane_init sd r c k s f2 = Inr l2"
  shows "(k = Road \<longrightarrow> l1 = l2) \<and>
         row l1 = row l2 \<and> kind l1 = kind l2 \<and> lcols l1 = lcols l2 \<and> cars l1 = cars l2 \<and>
         length (blocked l1) = length (blocked l2) \<and>
         (\<forall>i < length (blocked l1). f1 \<noteq> Some (int i) \<longrightarrow> f2 \<noteq> Some (int i) \<longrightarrow>
            blocked l1 ! i = blocked l2 ! i)"
proof (cases k)
  case Road
  then have "l1 = l2" using assms Lane_init_Road_forced [of sd r c s f1 f2] by simp
  then show ?thesis by simp
next
  case Grass
  from Lane_init_Grass_forced [OF assms(1) [unfolded Grass]] obtain l0 where
    l0: "Lane_init sd r c Grass s None = Inr l0" and len: "length (blocked l0) = nat c" and
    l1: "l1 = l0\<lparr>blocked := (case f1 of None \<Rightarrow> blocked l0
                                | Some k \<Rightarrow> if 0 \<le> k \<and> k < c then (blocked l0)[nat k := False]
                                            else blocked l0)\<rparr>"
    by blast
  from Lane_init_Grass_forced [OF assms(2) [unfolded Grass]] l0 have
    l2: "l2 = l0\<lparr>blocked := (case f2 of None \<Rightarrow> blocked l0
                                | Some k \<Rightarrow> if 0 \<le> k \<and> k < c then (blocked l0)[nat k := False]
                                            else blocked l0)\<rparr>"
    by auto
  have b1: "length (blocked l1) = nat c"
    by (subst l1) (simp add: len split: option.splits)
  have b2: "length (blocked l2) = nat c"
    by (subst l2) (simp add: len split: option.splits)
  have n1: "f1 \<noteq> Some (int i) \<Longrightarrow> blocked l1 ! i = blocked l0 ! i" for i
    by (subst l1) (auto split: option.splits)
  have n2: "f2 \<noteq> Some (int i) \<Longrightarrow> blocked l2 ! i = blocked l0 ! i" for i
    by (subst l2) (auto split: option.splits)
  have rest: "row l1 = row l2 \<and> kind l1 = kind l2 \<and> lcols l1 = lcols l2 \<and> cars l1 = cars l2"
    using Lane_init_fields [OF assms(1)] Lane_init_fields [OF assms(2)]
    by (subst l1, subst l2) simp
  show ?thesis using Grass b1 b2 n1 n2 rest by simp
qed

theorem C4_lane_content_witness:
  "\<exists>l1 l2. Lane_init sample_seed 1 9 Grass (grass_seed 1) (Some 4) = Inr l1 \<and>
     Lane_init sample_seed 1 9 Grass (grass_seed 1) (Some 3) = Inr l2 \<and>
     cars l1 = cars l2 \<and> length (blocked l1) = length (blocked l2) \<and>
     blocked l1 ! 1 = blocked l2 ! 1"
proof -
  obtain l1 where l1: "Lane_init sample_seed 1 9 Grass (grass_seed 1) (Some 4) = Inr l1"
    using Lane_init_Grass_total [of 9 sample_seed 1 "grass_seed 1" "Some 4"] by auto
  obtain l2 where l2: "Lane_init sample_seed 1 9 Grass (grass_seed 1) (Some 3) = Inr l2"
    using Lane_init_Grass_total [of 9 sample_seed 1 "grass_seed 1" "Some 3"] by auto
  have n: "length (blocked l1) = 9" using Lane_init_Grass_length [OF l1] by simp
  from C4_lane_content [OF l1 l2] n
  have "cars l1 = cars l2" and "length (blocked l1) = length (blocked l2)"
    and "blocked l1 ! 1 = blocked l2 ! 1"
    by auto
  then show ?thesis using l1 l2 by blast
qed

text \<open>
  C4 as stated fails: grass row 1 of the game (nine columns, seed 1930773) built with the
  hint 4 and with the hint 3 has two different bitmaps.
\<close>

theorem C4_counterexample:
  "map_sum id blocked (Lane_init sample_seed 1 9 Grass (grass_seed 1) (Some 4)) =
     Inr [False, True, False, False, False, False, False, False, False] \<and>
   map_sum id blocked (Lane_init sample_seed 1 9 Grass (grass_seed 1) (Some 3)) =
     Inr [False, True, False, False, True, False, False, False, False]"
  by (simp add: row1_lane)

text \<open>
  C5. In every reachable world, a lane materialized for a row below \<open>SAFE_START_ROWS\<close>
  (negative rows included) is an Open (grass) lane, whether the scheduler path or the
  backfill loop created it.
\<close>

theorem C5_safe_start_rows_open:
  assumes "reachable sd w" and "r < SAFE_START_ROWS" and "get_lane w r = Some l"
  shows "kind l = Grass"
  using reachable_lanes_ok [OF assms(1)] assms(2,3) by (simp add: lanes_ok_def get_lane_def)

theorem C5_safe_start_rows_open_witness:
  "\<exists>w' l. ensure_range sample_seed (World_init sample_seed 9) (- 1) 2 = Inr w' \<and>
     get_lane w' (- 1) = Some l \<and> kind l = Grass"
proof -
  have "1 \<le> cols (World_init sample_seed 9)" by simp
  then obtain w' where e: "ensure_range sample_seed (World_init sample_seed 9) (- 1) 2 = Inr w'"
    using ensure_range_total by blast
  have r: "reachable sample_seed w'" using reach_ensure [OF reach_init e] .
  obtain l where l: "get_lane w' (- 1) = Some l"
    using ensure_range_present [OF e, of "- 1"] by (auto simp: get_lane_def)
  have s: "- 1 < SAFE_START_ROWS" by (simp add: SAFE_START_ROWS_def)
  have "kind l = Grass" using C5_safe_start_rows_open [OF r s l] .
  then show ?thesis using e l by blast
qed

text \<open>
  C6 (amended). For a row at or above the safe start that is materialized through
  \<open>_make_lane\<close>, the kind of the lane and the scheduler state left are those of the scheduler
  of the specification, with a run length drawn by \<open>randint\<close> in
  \<open>[ROAD_SEGMENT_MIN, ROAD_SEGMENT_MAX]\<close> and a jitter drawn in \<open>[-ROAD_JITTER, ROAD_JITTER]\<close>.
  A row materialized by the backfill loop is Open whatever the scheduler state, and the
  backfill loop leaves the scheduler state and the generator unchanged.
\<close>

theorem C6_scheduler_and_backfill:
  "(SAFE_START_ROWS \<le> r \<and> make_lane sd w r = Inr (l, w') \<longrightarrow>
      (kind l, road_remaining w', next_road_start w') =
        spec_scheduler_step r (road_remaining w) (next_road_start w)
          (fst (randint (rng w) ROAD_SEGMENT_MIN ROAD_SEGMENT_MAX))
          (fst (randint (snd (randint (rng w) ROAD_SEGMENT_MIN ROAD_SEGMENT_MAX))
                  (- ROAD_JITTER) ROAD_JITTER)) \<and>
      ROAD_SEGMENT_MIN \<le> fst (randint (rng w) ROAD_SEGMENT_MIN ROAD_SEGMENT_MAX) \<and>
      fst (randint (rng w) ROAD_SEGMENT_MIN ROAD_SEGMENT_MAX) \<le> ROAD_SEGMENT_MAX \<and>
      - ROAD_JITTER \<le> fst (randint (snd (randint (rng w) ROAD_SEGMENT_MIN ROAD_SEGMENT_MAX))
                  (- ROAD_JITTER) ROAD_JITTER) \<and>
      fst (randint (snd (randint (rng w) ROAD_SEGMENT_MIN ROAD_SEGMENT_MAX))
                  (- ROAD_JITTER) ROAD_JITTER) \<le> ROAD_JITTER) \<and>
   (backfill_rows sd rs v = Inr v' \<and> lanes v q = None \<and> lanes v' q = Some b \<longrightarrow>
      kind b = Grass \<and> road_remaining v' = road_remaining v \<and>
      next_road_start v' = next_road_start v \<and> rng v' = rng v)"
proof (intro conjI impI)
  assume h: "SAFE_START_ROWS \<le> r \<and> make_lane sd w r = Inr (l, w')"
  then have s: "SAFE_START_ROWS \<le> r" and m: "make_lane sd w r = Inr (l, w')" by simp_all
  show "(kind l, road_remaining w', next_road_start w') =
        spec_scheduler_step r (road_remaining w) (next_road_start w)
          (fst (randint (rng w) ROAD_SEGMENT_MIN ROAD_SEGMENT_MAX))
          (fst (randint (snd (randint (rng w) ROAD_SEGMENT_MIN ROAD_SEGMENT_MAX))
                  (- ROAD_JITTER) ROAD_JITTER))"
    using make_lane_schedule [OF s m] schedule_row_spec [OF s, of w] by simp
next
  have a: "ROAD_SEGMENT_MIN \<le> ROAD_SEGMENT_MAX" by (simp add: constants)
  from randint_range [OF a, of "rng w"]
  show "ROAD_SEGMENT_MIN \<le> fst (randint (rng w) ROAD_SEGMENT_MIN ROAD_SEGMENT_MAX)"
    and "fst (randint (rng w) ROAD_SEGMENT_MIN ROAD_SEGMENT_MAX) \<le> ROAD_SEGMENT_MAX"
    by simp_all
next
  have b: "- ROAD_JITTER \<le> ROAD_JITTER" by (simp add: constants)
  from randint_range [OF b, of "snd (randint (rng w) ROAD_SEGMENT_MIN ROAD_SEGMENT_MAX)"]
  show "- ROAD_JITTER \<le> fst (randint (snd (randint (rng w) ROAD_SEGMENT_MIN ROAD_SEGMENT_MAX))
                  (- ROAD_JITTER) ROAD_JITTER)"
    and "fst (randint (snd (randint (rng w) ROAD_SEGMENT_MIN ROAD_SEGMENT_MAX))
                  (- ROAD_JITTER) ROAD_JITTER) \<le> ROAD_JITTER"
    by simp_all
next
  assume h: "backfill_rows sd rs v = Inr v' \<and> lanes v q = None \<and> lanes v' q = Some b"
  then have bf: "backfill_rows sd rs v = Inr v'" by simp
  from backfill_rows_created [OF bf] h Lane_init_fields
  show "kind b = Grass" by blast
  show "road_remaining v' = road_remaining v" using backfill_rows_fields(5) [OF bf] .
  show "next_road_start v' = next_road_start v" using backfill_rows_fields(6) [OF bf] .
  show "rng v' = rng v" using backfill_rows_fields(4) [OF bf] .
qed

theorem C6_scheduler_and_backfill_witness:
  "\<exists>l w' v' b. make_lane sample_seed (World_init sample_seed 9) 20 = Inr (l, w') \<and>
     kind l = Road \<and> road_remaining w' = 2 \<and> next_road_start w' = 25 \<and>
     backfill_rows sample_seed [10] (World_init sample_seed 9) = Inr v' \<and>
     lanes v' 10 = Some b \<and> kind b = Grass \<and> road_remaining v' = 0 \<and> next_road_start v' = 12"
proof -
  let ?w = "World_init sample_seed 9"
  have c: "1 \<le> cols ?w" by simp
  obtain l w' where m: "make_lane sample_seed ?w 20 = Inr (l, w')"
    using make_lane_total [OF c] by blast
  obtain v' where bf: "backfill_rows sample_seed [10] ?w = Inr v'"
    using backfill_rows_total [OF c] by blast
  obtain b where b: "lanes v' 10 = Some b"
    using backfill_rows_present [OF bf, of 10] by auto
  have e: "lanes ?w 10 = None" using World_init_schedule [of sample_seed 9] by simp
  have s: "SAFE_START_ROWS \<le> 20" by (simp add: SAFE_START_ROWS_def)
  note t = C6_scheduler_and_backfill [of 20 sample_seed ?w l w' "[10]" ?w v' 10 b]
  have "(kind l, road_remaining w', next_road_start w') = (Road, 2, 25)"
    using t s m
    by (simp add: sample_world spec_scheduler_step_def randint_def randbelow_def constants)
  moreover have "kind b = Grass \<and> road_remaining v' = 0 \<and> next_road_start v' = 12"
    using t bf e b by (simp add: sample_world)
  ultimately show ?thesis using m bf b by simp
qed

text \<open>
  C6 as stated fails on a backfilled row: after \<open>ensure_range(20, 20)\<close> on a new world the
  scheduler has \<open>road_remaining = 2\<close>; \<open>ensure_range(10, 20)\<close> then materializes row 10, at or
  above the safe start, as an Open lane and does not decrement the counter.
\<close>

theorem C6_counterexample:
  "\<exists>w0 w1 l. ensure_range sample_seed (World_init sample_seed 9) 20 20 = Inr w0 \<and>
     road_remaining w0 = 2 \<and> next_road_start w0 = 25 \<and> get_lane w0 10 = None \<and>
     ensure_range sample_seed w0 10 20 = Inr w1 \<and> SAFE_START_ROWS \<le> 10 \<and>
     get_lane w1 10 = Some l \<and> kind l = Grass \<and> road_remaining w1 = 2"
proof -
  let ?w = "World_init sample_seed 9"
  obtain w0 where e0: "ensure_range sample_seed ?w 20 20 = Inr w0"
    using ensure_range_total [of ?w sample_seed 20 20] by auto
  from first_call_state [OF e0] obtain l0 w2 where
    m: "make_lane sample_seed (?w\<lparr>generated_max := 19\<rparr>) 20 = Inr (l0, w2)"
    and f: "road_remaining w0 = road_remaining w2" "next_road_start w0 = next_road_start w2"
      "generated_max w0 = 20"
    by blast
  have s: "SAFE_START_ROWS \<le> 20" by (simp add: SAFE_START_ROWS_def)
  have "(kind l0, road_remaining w2, next_road_start w2) = (Road, 2, 25)"
    using make_lane_schedule [OF s m] schedule_row_spec [OF s, of "?w\<lparr>generated_max := 19\<rparr>"]
    by (simp add: sample_world spec_scheduler_step_def randint_def randbelow_def constants)
  then have st: "road_remaining w0 = 2" "next_road_start w0 = 25" using f by simp_all
  have a0: "lanes w0 10 = None" using ensure_range_absent [OF e0, of 10] by simp
  have "cols w0 = 9" using ensure_range_cols [OF e0] by simp
  then obtain w1 where e1: "ensure_range sample_seed w0 10 20 = Inr w1"
    using ensure_range_total [of w0 sample_seed 10 20] by auto
  obtain l where l: "lanes w1 10 = Some l"
    using ensure_range_present [OF e1, of 10] by auto
  have k: "kind l = Grass"
    using ensure_range_backfill_kind [OF _ _ e1 a0 l] f(3) by simp
  have fr: "w1 = w0\<lparr>lanes := lanes w1\<rparr>"
    using ensure_range_no_advance [OF _ _ e1] f(3) by simp
  have "road_remaining w1 = road_remaining w0" by (subst fr) simp
  then show ?thesis
    using e0 st a0 e1 l k by (simp add: get_lane_def SAFE_START_ROWS_def)
qed

text \<open>
  C7. \<open>Car.update\<close>: a right-moving car whose advanced position exceeds
  \<open>WIDTH + 2 * TILE\<close> is moved to \<open>-w - 2 * TILE\<close>; a left-moving car whose advanced position
  is below \<open>-w - 2 * TILE\<close> is moved to \<open>WIDTH + 2 * TILE\<close>; and a car of direction 1 or -1 with
  nonnegative speed, in \<open>[-w - 2 * TILE, WIDTH + 2 * TILE]\<close>, stays in that range for every
  nonnegative \<open>dt\<close>.
\<close>

theorem C7_vehicle_wrap:
  "(dir c = 1 \<and> car_x c + speed c * dt > real_of_int (WIDTH + 2 * TILE) \<longrightarrow>
      car_x (Car_update c dt) = real_of_int (- car_w c - 2 * TILE)) \<and>
   (dir c = - 1 \<and> car_x c - speed c * dt < real_of_int (- car_w c - 2 * TILE) \<longrightarrow>
      car_x (Car_update c dt) = real_of_int (WIDTH + 2 * TILE)) \<and>
   ((dir c = 1 \<or> dir c = - 1) \<and> 0 \<le> speed c \<and> 0 \<le> dt \<and>
    real_of_int (- car_w c - 2 * TILE) \<le> car_x c \<and> car_x c \<le> real_of_int (WIDTH + 2 * TILE) \<longrightarrow>
      real_of_int (- car_w c - 2 * TILE) \<le> car_x (Car_update c dt) \<and>
      car_x (Car_update c dt) \<le> real_of_int (WIDTH + 2 * TILE))"
proof (intro conjI impI)
  assume "dir c = 1 \<and> car_x c + speed c * dt > real_of_int (WIDTH + 2 * TILE)"
  then show "car_x (Car_update c dt) = real_of_int (- car_w c - 2 * TILE)"
    by (simp add: Car_update_def Let_def)
next
  assume "dir c = - 1 \<and> car_x c - speed c * dt < real_of_int (- car_w c - 2 * TILE)"
  then show "car_x (Car_update c dt) = real_of_int (WIDTH + 2 * TILE)"
    by (simp add: Car_update_def Let_def)
next
  assume h: "(dir c = 1 \<or> dir c = - 1) \<and> 0 \<le> speed c \<and> 0 \<le> dt \<and>
    real_of_int (- car_w c - 2 * TILE) \<le> car_x c \<and> car_x c \<le> real_of_int (WIDTH + 2 * TILE)"
  from Car_update_range [of c dt] h
  show "real_of_int (- car_w c - 2 * TILE) \<le> car_x (Car_update c dt)" by blast
next
  assume h: "(dir c = 1 \<or> dir c = - 1) \<and> 0 \<le> speed c \<and> 0 \<le> dt \<and>
    real_of_int (- car_w c - 2 * TILE) \<le> car_x c \<and> car_x c \<le> real_of_int (WIDTH + 2 * TILE)"
  from Car_update_range [of c dt] h
  show "car_x (Car_update c dt) \<le> real_of_int (WIDTH + 2 * TILE)" by blast
qed

theorem C7_vehicle_wrap_witness:
  "car_x (Car_update right_car 1) = - 144 \<and> car_x (Car_update left_car 1) = 528 \<and>
   - 144 \<le> car_x (Car_update left_car 1) \<and> car_x (Car_update right_car 1) \<le> 528"
  using C7_vehicle_wrap [of right_car 1] C7_vehicle_wrap [of left_car 1]
  by (simp add: right_car_def left_car_def constants)

text \<open>
  C8 (amended). For a column outside \<open>[0, cols)\<close>, \<open>is_blocked\<close> is true on an Open lane
  and false on a Hazard lane; it never raises.
\<close>

theorem C8_out_of_range_columns:
  assumes "Lane_init sd r c k s f = Inr l" and "col < 0 \<or> c \<le> col"
  shows "is_blocked l col = (k = Grass)"
proof (cases k)
  case Grass
  have "length (blocked l) = nat c"
    using Lane_init_Grass_length [OF assms(1) [unfolded Grass]] .
  then have "col < 0 \<or> int (length (blocked l)) \<le> col" using assms(2) by auto
  then show ?thesis
    using Lane_init_fields [OF assms(1)] Grass by (auto simp: is_blocked_def)
next
  case Road
  then show ?thesis using Lane_init_fields [OF assms(1)] by (simp add: is_blocked_def)
qed

theorem C8_out_of_range_columns_witness:
  "\<exists>l. Lane_init sample_seed 1 9 Grass (grass_seed 1) (Some 4) = Inr l \<and>
     is_blocked l 9 \<and> is_blocked l (- 1)"
proof -
  obtain l where l: "Lane_init sample_seed 1 9 Grass (grass_seed 1) (Some 4) = Inr l"
    using Lane_init_Grass_total [of 9 sample_seed 1 "grass_seed 1" "Some 4"] by auto
  have "is_blocked l 9" using C8_out_of_range_columns [OF l, of 9] by simp
  moreover have "is_blocked l (- 1)" using C8_out_of_range_columns [OF l, of "- 1"] by simp
  ultimately show ?thesis using l by blast
qed

text \<open>
  C8 as stated fails on a Hazard lane: the road lane of row 6 is not blocked at the
  columns -1 and 9.
\<close>

theorem C8_counterexample:
  "\<exists>l. Lane_init sample_seed 6 9 Road (road_seed 6) None = Inr l \<and> kind l = Road \<and>
     \<not> is_blocked l (- 1) \<and> \<not> is_blocked l 9"
proof -
  obtain l where l: "Lane_init sample_seed 6 9 Road (road_seed 6) None = Inr l"
    using Lane_init_Road_total by blast
  have "kind l = Road" using Lane_init_fields [OF l] by simp
  then show ?thesis using l by (simp add: is_blocked_def)
qed

text \<open>
  C9 (amended). For every \<open>deltaTime\<close>, \<open>World.update\<close> updates the vehicles of every
  materialized Hazard lane that is on the screen for the given camera offset: each vehicle
  keeps its width, speed and direction, and its position advances by
  \<open>direction * speed * deltaTime\<close> before the wrap relocation of \<open>Car.update\<close> applies to the
  advanced position. Every other materialized lane (Open, or off the screen) is left as it is,
  and no lane changes its row, kind, column count or blocked bitmap.
\<close>

theorem C9_update_advances_visible_lanes:
  assumes "get_lane w r = Some l"
  shows "\<exists>l'. get_lane (World_update w dt camera_y) r = Some l' \<and>
           row l' = row l \<and> kind l' = kind l \<and> lcols l' = lcols l \<and> blocked l' = blocked l \<and>
           length (cars l') = length (cars l) \<and>
           (if kind l = Road \<and> on_screen l camera_y
            then (\<forall>i < length (cars l).
                    car_w (cars l' ! i) = car_w (cars l ! i) \<and>
                    speed (cars l' ! i) = speed (cars l ! i) \<and>
                    dir (cars l' ! i) = dir (cars l ! i) \<and>
                    car_x (cars l' ! i) =
                      (if dir (cars l ! i) = 1 \<and>
                          advanced_position (cars l ! i) dt > real_of_int (WIDTH + 2 * TILE)
                       then real_of_int (- car_w (cars l ! i) - 2 * TILE)
                       else if dir (cars l ! i) = - 1 \<and>
                          advanced_position (cars l ! i) dt
                            < real_of_int (- car_w (cars l ! i) - 2 * TILE)
                       then real_of_int (WIDTH + 2 * TILE)
                       else advanced_position (cars l ! i) dt))
            else l' = l)"
proof (cases "kind l = Road \<and> on_screen l camera_y")
  case True
  let ?l' = "l\<lparr>cars := map (\<lambda>car. Car_update car dt) (cars l)\<rparr>"
  have g: "get_lane (World_update w dt camera_y) r = Some ?l'"
    using assms True
    by (simp add: get_lane_def World_update_def Lane_update_def on_screen_def Let_def)
  have c: "car_w (Car_update c dt) = car_w c \<and> speed (Car_update c dt) = speed c \<and>
      dir (Car_update c dt) = dir c \<and>
      car_x (Car_update c dt) =
        (if dir c = 1 \<and> advanced_position c dt > real_of_int (WIDTH + 2 * TILE)
         then real_of_int (- car_w c - 2 * TILE)
         else if dir c = - 1 \<and> advanced_position c dt < real_of_int (- car_w c - 2 * TILE)
         then real_of_int (WIDTH + 2 * TILE)
         else advanced_position c dt)" for c
    by (auto simp: Car_update_def advanced_position_def Let_def)
  show ?thesis using g True c by simp
next
  case False
  have "get_lane (World_update w dt camera_y) r = Some l"
    using assms False
    by (auto simp: get_lane_def World_update_def Lane_update_def on_screen_def Let_def)
  then show ?thesis using False by auto
qed

theorem C9_update_advances_visible_lanes_witness:
  "\<exists>w l l'. ensure_range sample_seed (World_init sample_seed 9) 20 20 = Inr w \<and>
     get_lane w 20 = Some l \<and> kind l = Road \<and> on_screen l 600 \<and> cars l \<noteq> [] \<and>
     get_lane (World_update w 1 600) 20 = Some l' \<and> length (cars l') = length (cars l) \<and>
     speed (cars l' ! 0) = speed (cars l ! 0) \<and>
     car_x (cars l' ! 0) =
       (if dir (cars l ! 0) = 1 \<and> advanced_position (cars l ! 0) 1 > 528
        then real_of_int (- car_w (cars l ! 0) - 96)
        else if dir (cars l ! 0) = - 1 \<and>
           advanced_position (cars l ! 0) 1 < real_of_int (- car_w (cars l ! 0) - 96)
        then 528
        else advanced_position (cars l ! 0) 1)"
proof -
  have "1 \<le> cols (World_init sample_seed 9)" by simp
  then obtain w where e: "ensure_range sample_seed (World_init sample_seed 9) 20 20 = Inr w"
    using ensure_range_total by blast
  from first_call_row_20 [OF e] obtain l where l: "get_lane w 20 = Some l"
    and i: "Lane_init sample_seed 20 9 Road (road_seed 20) None = Inr l"
    by (auto simp: get_lane_def)
  have f: "kind l = Road" "row l = 20" using Lane_init_fields [OF i] by simp_all
  have o: "on_screen l 600"
    by (simp add: on_screen_def world_row_to_screen_y_def f constants)
  have n: "cars l \<noteq> []" using Lane_init_Road_first_car [OF i] by simp
  then have z: "0 < length (cars l)" by simp
  from C9_update_advances_visible_lanes [OF l, of 1 600] obtain l' where
    g: "get_lane (World_update w 1 600) 20 = Some l'" and
    len: "length (cars l') = length (cars l)" and
    a: "\<forall>i < length (cars l).
          car_w (cars l' ! i) = car_w (cars l ! i) \<and>
          speed (cars l' ! i) = speed (cars l ! i) \<and>
          dir (cars l' ! i) = dir (cars l ! i) \<and>
          car_x (cars l' ! i) =
            (if dir (cars l ! i) = 1 \<and>
                advanced_position (cars l ! i) 1 > real_of_int (WIDTH + 2 * TILE)
             then real_of_int (- car_w (cars l ! i) - 2 * TILE)
             else if dir (cars l ! i) = - 1 \<and>
                advanced_position (cars l ! i) 1 < real_of_int (- car_w (cars l ! i) - 2 * TILE)
             then real_of_int (WIDTH + 2 * TILE)
             else advanced_position (cars l ! i) 1)"
    using f o by auto
  from a z have "speed (cars l' ! 0) = speed (cars l ! 0)" and
    "car_x (cars l' ! 0) =
       (if dir (cars l ! 0) = 1 \<and> advanced_position (cars l ! 0) 1 > 528
        then real_of_int (- car_w (cars l ! 0) - 96)
        else if dir (cars l ! 0) = - 1 \<and>
           advanced_position (cars l ! 0) 1 < real_of_int (- car_w (cars l ! 0) - 96)
        then 528
        else advanced_position (cars l ! 0) 1)"
    by (simp_all add: constants)
  then show ?thesis using e l f o n g len by blast
qed

text \<open>
  C9 as stated fails: after \<open>ensure_range(20, 20)\<close> on a new world, row 20 is a Hazard lane
  whose first vehicle has a positive speed, and \<open>update(1, 0)\<close> leaves the lane unchanged,
  because the row is off the screen at camera offset 0.
\<close>

theorem C9_counterexample:
  "\<exists>w l. ensure_range sample_seed (World_init sample_seed 9) 20 20 = Inr w \<and>
     get_lane w 20 = Some l \<and> kind l = Road \<and> cars l \<noteq> [] \<and> 0 < speed (hd (cars l)) \<and>
     (dir (hd (cars l)) = 1 \<or> dir (hd (cars l)) = - 1) \<and>
     get_lane (World_update w 1 0) 20 = Some l"
proof -
  have "1 \<le> cols (World_init sample_seed 9)" by simp
  then obtain w where e: "ensure_range sample_seed (World_init sample_seed 9) 20 20 = Inr w"
    using ensure_range_total by blast
  from first_call_row_20 [OF e] obtain l where l: "lanes w 20 = Some l"
    and i: "Lane_init sample_seed 20 9 Road (road_seed 20) None = Inr l"
    by auto
  have f: "kind l = Road" "row l = 20" using Lane_init_fields [OF i] by simp_all
  have "get_lane (World_update w 1 0) 20 = Some l"
    using l by (simp add: get_lane_def World_update_def world_row_to_screen_y_def f constants)
  then show ?thesis using e l f Lane_init_Road_first_car [OF i] by (simp add: get_lane_def)
qed

text \<open>
  C10. \<open>ensure_range(low, high)\<close> never replaces or changes a lane that is already
  materialized: a row present before the call and inside \<open>[low - 2, high + 2]\<close> holds the
  same lane (kind, blocked bitmap, vehicles) afterwards.
\<close>

theorem C10_ensure_range_keeps_lanes:
  assumes "ensure_range sd w low high = Inr w'" and "get_lane w r = Some l"
    and "low - 2 \<le> r" and "r \<le> high + 2"
  shows "get_lane w' r = Some l"
proof -
  from assms(1) obtain w1 w2 where
    g: "generate_rows sd [max (generated_max (reset_if_far sd w low) + 1) low..high]
       (reset_if_far sd w low) = Inr w1"
    and b: "backfill_rows sd [low..min high (generated_max w1)] w1 = Inr w2"
    and e: "w' = evict w2 (low - 2) (high + 2)"
    by (rule ensure_range_cases)
  have "lanes (reset_if_far sd w low) r = Some l" using assms(2) by (simp add: get_lane_def)
  from generate_rows_keeps [OF g this] have "lanes w1 r = Some l" .
  from backfill_rows_keeps [OF b this] have "lanes w2 r = Some l" .
  then show ?thesis using e assms(3,4) by (simp add: evict_def get_lane_def)
qed

theorem C10_ensure_range_keeps_lanes_witness:
  "\<exists>w0 l w1. ensure_range sample_seed (World_init sample_seed 9) 0 5 = Inr w0 \<and>
     get_lane w0 5 = Some l \<and> ensure_range sample_seed w0 3 8 = Inr w1 \<and>
     get_lane w1 5 = Some l"
proof -
  have "1 \<le> cols (World_init sample_seed 9)" by simp
  then obtain w0 where e0: "ensure_range sample_seed (World_init sample_seed 9) 0 5 = Inr w0"
    using ensure_range_total by blast
  obtain l where l: "get_lane w0 5 = Some l"
    using ensure_range_present [OF e0, of 5] by (auto simp: get_lane_def)
  have "1 \<le> cols w0" using ensure_range_cols [OF e0] by simp
  then obtain w1 where e1: "ensure_range sample_seed w0 3 8 = Inr w1"
    using ensure_range_total by blast
  have "get_lane w1 5 = Some l"
    using C10_ensure_range_keeps_lanes [OF e1 l] by simp
  then show ?thesis using e0 l e1 by blast
qed

end
